theory Spec2Isabelle
  imports Complex_Main
begin

section \<open>Calculator.go: tokens, tables and the Go library it calls\<close>

text \<open>
  The calculator evaluates a line of text in three stages: \<open>tokenize\<close>, \<open>shuntingYard\<close>
  and \<open>evalRPN\<close>, composed by \<open>evalExpr\<close>. The stages are embedded below, one HOL
  function per Go function, with the loops written as recursion.

  A Go \<open>string\<close> is a byte sequence and the lexer indexes it by byte, so a line is a
  \<open>string\<close> (a list of 8-bit \<open>char\<close>s) here as well.
\<close>

datatype tokenType = tNumber | tOp | tLParen | tRParen | tFunc | tComma | tIdent

datatype token = Token (tokType: tokenType) (val: string)

text \<open>
  Every way in which a stage stops without a value. The first fourteen are the
  \<open>errors.New\<close>/\<open>fmt.Errorf\<close> results of the source, carrying the text the message
  interpolates; \<open>ParseFloatError\<close> is the error of \<open>strconv.ParseFloat\<close> handed on by
  \<open>evalRPN\<close>; \<open>RuntimePanic\<close> is a Go run-time panic (calling a nil function value taken
  from a table miss, or indexing an empty argument slice).
\<close>

datatype error =
    UnknownIdentifier string
  | InvalidCharacter char
  | CommaOutsideFunction
  | UnbalancedParens
  | UnsupportedFunction string
  | ParseFloatError string
  | UnaryWithoutOperand
  | BinaryTooFewOperands
  | DivisionByZero
  | FunctionTooFewArgs string
  | SqrtOfNegative
  | MaxNeedsTwo
  | MinNeedsTwo
  | InvalidExpression
  | RuntimePanic

text \<open>
  The source computes on \<open>float64\<close> through Go's arithmetic and the packages \<open>strconv\<close>
  and \<open>math\<close>, none of which is part of the repository. They are a parameter of the
  embedding: a record of operations on a type \<open>'f\<close> of float64 values. Nothing is assumed
  of them, so every theorem below holds for IEEE-754 binary64 with Go's library as for any
  other interpretation.
\<close>

record 'f golib =
  parseFloat :: "string \<Rightarrow> 'f option"  \<comment> \<open>\<open>strconv.ParseFloat(s, 64)\<close>; \<open>None\<close> when \<open>err != nil\<close>\<close>
  fzero :: "'f"                          \<comment> \<open>the constant \<open>0\<close> as a float64\<close>
  fadd :: "'f \<Rightarrow> 'f \<Rightarrow> 'f"              \<comment> \<open>\<open>a + b\<close>\<close>
  fsub :: "'f \<Rightarrow> 'f \<Rightarrow> 'f"              \<comment> \<open>\<open>a - b\<close>\<close>
  fmul :: "'f \<Rightarrow> 'f \<Rightarrow> 'f"              \<comment> \<open>\<open>a * b\<close>\<close>
  fdiv :: "'f \<Rightarrow> 'f \<Rightarrow> 'f"              \<comment> \<open>\<open>a / b\<close>\<close>
  fneg :: "'f \<Rightarrow> 'f"                    \<comment> \<open>\<open>-b\<close>\<close>
  feq :: "'f \<Rightarrow> 'f \<Rightarrow> bool"             \<comment> \<open>\<open>a == b\<close>\<close>
  flt :: "'f \<Rightarrow> 'f \<Rightarrow> bool"             \<comment> \<open>\<open>a < b\<close>\<close>
  fgt :: "'f \<Rightarrow> 'f \<Rightarrow> bool"             \<comment> \<open>\<open>a > b\<close>\<close>
  isNaN :: "'f \<Rightarrow> bool"                 \<comment> \<open>\<open>math.IsNaN\<close> (used by statements only)\<close>
  mathPow :: "'f \<Rightarrow> 'f \<Rightarrow> 'f"
  mathSin :: "'f \<Rightarrow> 'f"
  mathCos :: "'f \<Rightarrow> 'f"
  mathTan :: "'f \<Rightarrow> 'f"
  mathSqrt :: "'f \<Rightarrow> 'f"
  mathLog10 :: "'f \<Rightarrow> 'f"
  mathLog :: "'f \<Rightarrow> 'f"
  mathAbs :: "'f \<Rightarrow> 'f"
  mathFloor :: "'f \<Rightarrow> 'f"
  mathCeil :: "'f \<Rightarrow> 'f"
  mathRound :: "'f \<Rightarrow> 'f"
  mathPi :: "'f"
  mathE :: "'f"

subsection \<open>The table \<open>ops\<close>\<close>

record 'f opinfo =
  prec :: int
  rightAssoc :: bool
  unary :: bool
  fn :: "('f \<Rightarrow> 'f \<Rightarrow> 'f) option"  \<comment> \<open>\<open>None\<close> is the nil function value\<close>

definition opsTable :: "'f golib \<Rightarrow> (string \<times> 'f opinfo) list" where
  "opsTable L =
    [(''+'',  \<lparr>prec = 1, rightAssoc = False, unary = False, fn = Some (\<lambda>a b. fadd L a b)\<rparr>),
     (''-'',  \<lparr>prec = 1, rightAssoc = False, unary = False, fn = Some (\<lambda>a b. fsub L a b)\<rparr>),
     (''*'',  \<lparr>prec = 2, rightAssoc = False, unary = False, fn = Some (\<lambda>a b. fmul L a b)\<rparr>),
     (''/'',  \<lparr>prec = 2, rightAssoc = False, unary = False, fn = Some (\<lambda>a b. fdiv L a b)\<rparr>),
     (''^'',  \<lparr>prec = 3, rightAssoc = True, unary = False, fn = Some (\<lambda>a b. mathPow L a b)\<rparr>),
     (''u-'', \<lparr>prec = 4, rightAssoc = True, unary = True, fn = Some (\<lambda>_ b. fneg L b)\<rparr>),
     (''u+'', \<lparr>prec = 4, rightAssoc = True, unary = True, fn = Some (\<lambda>_ b. b)\<rparr>)]"

text \<open>Indexing a Go map at a missing key gives the zero value of the element type.\<close>

definition ops :: "'f golib \<Rightarrow> string \<Rightarrow> 'f opinfo" where
  "ops L k =
    (case map_of (opsTable L) k of
       Some d \<Rightarrow> d
     | None \<Rightarrow> \<lparr>prec = 0, rightAssoc = False, unary = False, fn = None\<rparr>)"

subsection \<open>The tables \<open>functions\<close> and \<open>constants\<close>\<close>

text \<open>
  A function of the table takes the argument slice; \<open>a[0]\<close> on an empty slice panics.
\<close>

definition arg0 :: "('f \<Rightarrow> error + 'f) \<Rightarrow> 'f list \<Rightarrow> error + 'f" where
  "arg0 f a = (case a of [] \<Rightarrow> Inl RuntimePanic | x # _ \<Rightarrow> f x)"

definition sqrtFn :: "'f golib \<Rightarrow> 'f list \<Rightarrow> error + 'f" where
  "sqrtFn L = arg0 (\<lambda>x. if flt L x (fzero L) then Inl SqrtOfNegative else Inr (mathSqrt L x))"

definition maxFn :: "'f golib \<Rightarrow> 'f list \<Rightarrow> error + 'f" where
  "maxFn L a =
    (if length a < 2 then Inl MaxNeedsTwo
     else if fgt L (a ! 0) (a ! 1) then Inr (a ! 0)
     else Inr (a ! 1))"

definition minFn :: "'f golib \<Rightarrow> 'f list \<Rightarrow> error + 'f" where
  "minFn L a =
    (if length a < 2 then Inl MinNeedsTwo
     else if flt L (a ! 0) (a ! 1) then Inr (a ! 0)
     else Inr (a ! 1))"

definition functionsList :: "'f golib \<Rightarrow> (string \<times> ('f list \<Rightarrow> error + 'f)) list" where
  "functionsList L =
    [(''sin'', arg0 (\<lambda>x. Inr (mathSin L x))),
     (''cos'', arg0 (\<lambda>x. Inr (mathCos L x))),
     (''tan'', arg0 (\<lambda>x. Inr (mathTan L x))),
     (''sqrt'', sqrtFn L),
     (''log'', arg0 (\<lambda>x. Inr (mathLog10 L x))),
     (''ln'', arg0 (\<lambda>x. Inr (mathLog L x))),
     (''abs'', arg0 (\<lambda>x. Inr (mathAbs L x))),
     (''floor'', arg0 (\<lambda>x. Inr (mathFloor L x))),
     (''ceil'', arg0 (\<lambda>x. Inr (mathCeil L x))),
     (''round'', arg0 (\<lambda>x. Inr (mathRound L x))),
     (''max'', maxFn L),
     (''min'', minFn L)]"

definition functionsMap :: "'f golib \<Rightarrow> string \<Rightarrow> ('f list \<Rightarrow> error + 'f) option" where
  "functionsMap L = map_of (functionsList L)"

definition constants :: "'f golib \<Rightarrow> string \<Rightarrow> 'f option" where
  "constants L = map_of [(''pi'', mathPi L), (''e'', mathE L)]"

section \<open>The lexer\<close>

subsection \<open>Character classes\<close>

text \<open>
  The lexer converts one byte to a rune, \<open>rune(s[i])\<close>, so the classes of package
  \<open>unicode\<close> are only ever asked about the code points U+0000 to U+00FF. On that range
  \<open>unicode.IsSpace\<close> holds of tab, LF, VT, FF, CR, space, U+0085 and U+00A0;
  \<open>unicode.IsDigit\<close> of \<open>0\<close> to \<open>9\<close>; \<open>unicode.IsLetter\<close> of the ASCII letters, U+00AA,
  U+00B5, U+00BA and U+00C0 to U+00FF without U+00D7 and U+00F7.
\<close>

definition code :: "char \<Rightarrow> nat" where
  "code c = of_char c"

definition isSpace :: "char \<Rightarrow> bool" where
  "isSpace r \<longleftrightarrow> (9 \<le> code r \<and> code r \<le> 13) \<or> code r = 32 \<or> code r = 133 \<or> code r = 160"

definition isDigit :: "char \<Rightarrow> bool" where
  "isDigit r \<longleftrightarrow> 48 \<le> code r \<and> code r \<le> 57"

definition isLetter :: "char \<Rightarrow> bool" where
  "isLetter r \<longleftrightarrow>
     (65 \<le> code r \<and> code r \<le> 90) \<or> (97 \<le> code r \<and> code r \<le> 122) \<or>
     code r = 170 \<or> code r = 181 \<or> code r = 186 \<or>
     (192 \<le> code r \<and> code r \<le> 214) \<or> (216 \<le> code r \<and> code r \<le> 246) \<or>
     (248 \<le> code r \<and> code r \<le> 255)"

definition isIdentStart :: "char \<Rightarrow> bool" where
  "isIdentStart r \<longleftrightarrow> isLetter r \<or> r = CHR ''_''"

definition isIdent :: "char \<Rightarrow> bool" where
  "isIdent r \<longleftrightarrow> isLetter r \<or> isDigit r \<or> r = CHR ''_''"

subsection \<open>\<open>strings.TrimSpace\<close> and \<open>strings.ToLower\<close>\<close>

text \<open>
  \<open>strings.TrimSpace\<close> decodes UTF-8 and removes the leading and the trailing white-space
  code points: the six ASCII ones, and U+0085, U+00A0 (two bytes), U+1680, U+2000 to
  U+200A, U+2028, U+2029, U+202F, U+205F and U+3000 (three bytes).
\<close>

definition asciiSpace :: "char \<Rightarrow> bool" where
  "asciiSpace c \<longleftrightarrow> (9 \<le> code c \<and> code c \<le> 13) \<or> code c = 32"

definition space2 :: "char \<Rightarrow> char \<Rightarrow> bool" where
  "space2 a b \<longleftrightarrow> code a = 194 \<and> (code b = 133 \<or> code b = 160)"

definition space3 :: "char \<Rightarrow> char \<Rightarrow> char \<Rightarrow> bool" where
  "space3 a b c \<longleftrightarrow>
     (code a = 225 \<and> code b = 154 \<and> code c = 128) \<or>
     (code a = 226 \<and> code b = 128 \<and>
        ((128 \<le> code c \<and> code c \<le> 138) \<or> code c = 168 \<or> code c = 169 \<or> code c = 175)) \<or>
     (code a = 226 \<and> code b = 129 \<and> code c = 159) \<or>
     (code a = 227 \<and> code b = 128 \<and> code c = 128)"

fun trimLeft :: "string \<Rightarrow> string" where
  "trimLeft (a # b # c # s) =
     (if asciiSpace a then trimLeft (b # c # s)
      else if space2 a b then trimLeft (c # s)
      else if space3 a b c then trimLeft s
      else a # b # c # s)"
| "trimLeft [a, b] =
     (if asciiSpace a then trimLeft [b]
      else if space2 a b then []
      else [a, b])"
| "trimLeft [a] = (if asciiSpace a then [] else [a])"
| "trimLeft [] = []"

text \<open>The same from the end, on the reversed string: \<open>c\<close> is the last byte.\<close>

fun trimRightRev :: "string \<Rightarrow> string" where
  "trimRightRev (c # b # a # s) =
     (if asciiSpace c then trimRightRev (b # a # s)
      else if space2 b c then trimRightRev (a # s)
      else if space3 a b c then trimRightRev s
      else c # b # a # s)"
| "trimRightRev [c, b] =
     (if asciiSpace c then trimRightRev [b]
      else if space2 b c then []
      else [c, b])"
| "trimRightRev [c] = (if asciiSpace c then [] else [c])"
| "trimRightRev [] = []"

definition trimSpace :: "string \<Rightarrow> string" where
  "trimSpace s = rev (trimRightRev (rev (trimLeft s)))"

text \<open>
  \<open>strings.ToLower\<close> maps \<open>A\<close> to \<open>Z\<close> to lower case. The lexer applies it to an
  identifier, and uses the result only as a key of the two tables and against \<open>ans\<close>.
  On an identifier with a byte above 0x7F Go's result can differ from the one here (it
  maps code points, and writes U+FFFD for a byte that is not UTF-8), but both keep a
  byte above 0x7F, so neither is a key: the only code points above U+007F whose lower
  case is ASCII are U+0130 and U+212A, and their encodings contain a byte that ends
  the identifier. So the lookups agree on every identifier.
\<close>

definition lowerByte :: "char \<Rightarrow> char" where
  "lowerByte c = (if 65 \<le> code c \<and> code c \<le> 90 then char_of (code c + 32) else c)"

definition toLower :: "string \<Rightarrow> string" where
  "toLower s = map lowerByte s"

subsection \<open>\<open>tokenize\<close>\<close>

text \<open>
  The inner loop of the numeral case, from \<open>j\<close> on: the number of bytes it advances over.
\<close>

fun scanNumber :: "bool \<Rightarrow> string \<Rightarrow> nat" where
  "scanNumber hasE [] = 0"
| "scanNumber hasE (r # rs) =
     (if isDigit r \<or> r = CHR ''.'' then Suc (scanNumber hasE rs)
      else if (r = CHR ''e'' \<or> r = CHR ''E'') \<and> \<not> hasE then
        (case rs of
           [] \<Rightarrow> Suc (scanNumber True rs)
         | c # rs' \<Rightarrow>
             if c = CHR ''+'' \<or> c = CHR ''-'' then Suc (Suc (scanNumber True rs'))
             else Suc (scanNumber True rs))
      else 0)"

text \<open>
  The main loop, on the text from index \<open>i\<close> on, with the tokens emitted so far and
  \<open>prevType\<close>.
\<close>

function tokenizeFrom :: "'f golib \<Rightarrow> string \<Rightarrow> token list \<Rightarrow> tokenType \<Rightarrow> error + token list" where
  "tokenizeFrom L [] toks prevType = Inr toks"
| "tokenizeFrom L (ch # rest) toks prevType =
     (if isSpace ch then tokenizeFrom L rest toks prevType
      else if isDigit ch \<or> ch = CHR ''.'' then
        (let n = scanNumber False rest
         in tokenizeFrom L (drop n rest) (toks @ [Token tNumber (ch # take n rest)]) tNumber)
      else if ch = CHR ''+'' \<or> ch = CHR ''-'' then
        (let op = (if prevType = tOp \<or> prevType = tLParen \<or> length toks = 0
                   then (if [ch] = ''-'' then ''u-'' else ''u+'')
                   else [ch])
         in tokenizeFrom L rest (toks @ [Token tOp op]) tOp)
      else if ch = CHR ''*'' \<or> ch = CHR ''/'' \<or> ch = CHR ''^'' then
        tokenizeFrom L rest (toks @ [Token tOp [ch]]) tOp
      else if ch = CHR ''('' then tokenizeFrom L rest (toks @ [Token tLParen ''('']) tLParen
      else if ch = CHR '')'' then tokenizeFrom L rest (toks @ [Token tRParen '')'']) tRParen
      else if ch = CHR '','' then tokenizeFrom L rest (toks @ [Token tComma '','']) tComma
      else if isIdentStart ch then
        (let ident = ch # takeWhile isIdent rest;
             low = toLower ident
         in if functionsMap L low \<noteq> None then
              tokenizeFrom L (dropWhile isIdent rest) (toks @ [Token tFunc low]) tIdent
            else if constants L low \<noteq> None \<or> low = ''ans'' then
              tokenizeFrom L (dropWhile isIdent rest) (toks @ [Token tIdent low]) tIdent
            else Inl (UnknownIdentifier ident))
      else Inl (InvalidCharacter ch))"
  by pat_completeness auto
termination
  by (relation "measure (\<lambda>(L, s, toks, p). length s)")
     (auto simp: length_dropWhile_le less_Suc_eq_le)

definition tokenize :: "'f golib \<Rightarrow> string \<Rightarrow> error + token list" where
  "tokenize L input = tokenizeFrom L (trimSpace input) [] tOp"

section \<open>The parser\<close>

text \<open>
  \<open>stack\<close> and \<open>st\<close> are Go slices used as stacks, pushed and popped at the end. Here
  they are lists whose head is the top: \<open>stack[len(stack)-1]\<close> is the head, a push is
  \<open>#\<close>. \<open>output\<close> is appended to, as in the source.
\<close>

text \<open>The loop of the cases \<open>tComma\<close> and \<open>tRParen\<close>.\<close>

fun popToLParen :: "token list \<Rightarrow> token list \<Rightarrow> token list \<times> token list" where
  "popToLParen output [] = (output, [])"
| "popToLParen output (tp # stack) =
     (if tokType tp \<noteq> tLParen then popToLParen (output @ [tp]) stack
      else (output, tp # stack))"

text \<open>The loop of the case \<open>tOp\<close>.\<close>

fun popOps :: "'f golib \<Rightarrow> string \<Rightarrow> token list \<Rightarrow> token list \<Rightarrow> token list \<times> token list" where
  "popOps L cur output [] = (output, [])"
| "popOps L cur output (t # stack) =
     (if tokType t = tOp then
        (if prec (ops L (val t)) > prec (ops L cur) \<or>
            (prec (ops L (val t)) = prec (ops L cur) \<and> \<not> rightAssoc (ops L cur))
         then popOps L cur (output @ [t]) stack
         else (output, t # stack))
      else (output, t # stack))"

text \<open>One iteration of the loop over \<open>toks\<close>.\<close>

definition syStep :: "'f golib \<Rightarrow> token \<Rightarrow> token list \<times> token list \<Rightarrow> error + token list \<times> token list" where
  "syStep L t os =
    (let output = fst os; stack = snd os in
     case tokType t of
       tNumber \<Rightarrow> Inr (output @ [t], stack)
     | tIdent \<Rightarrow> Inr (output @ [t], stack)
     | tFunc \<Rightarrow> Inr (output, t # stack)
     | tComma \<Rightarrow>
         (case popToLParen output stack of
            (output', stack') \<Rightarrow>
              if length stack' = 0 then Inl CommaOutsideFunction else Inr (output', stack'))
     | tOp \<Rightarrow>
         (case popOps L (val t) output stack of
            (output', stack') \<Rightarrow> Inr (output', t # stack'))
     | tLParen \<Rightarrow> Inr (output, t # stack)
     | tRParen \<Rightarrow>
         (case popToLParen output stack of
            (output', stack') \<Rightarrow>
              if length stack' = 0 then Inl UnbalancedParens
              else
                (let stack'' = tl stack' in
                 if length stack'' > 0 \<and> tokType (hd stack'') = tFunc
                 then Inr (output' @ [hd stack''], tl stack'')
                 else Inr (output', stack''))))"

fun syLoop :: "'f golib \<Rightarrow> token list \<Rightarrow> token list \<times> token list \<Rightarrow> error + token list \<times> token list" where
  "syLoop L [] os = Inr os"
| "syLoop L (t # toks) os =
     (case syStep L t os of
        Inl e \<Rightarrow> Inl e
      | Inr os' \<Rightarrow> syLoop L toks os')"

text \<open>The loop that empties the stack at the end of the input.\<close>

fun popAll :: "token list \<Rightarrow> token list \<Rightarrow> error + token list" where
  "popAll output [] = Inr output"
| "popAll output (tp # stack) =
     (if tokType tp = tLParen then Inl UnbalancedParens
      else popAll (output @ [tp]) stack)"

definition arity :: "string \<Rightarrow> int option" where
  "arity = map_of
    [(''sin'', 1), (''cos'', 1), (''tan'', 1), (''sqrt'', 1), (''log'', 1), (''ln'', 1),
     (''abs'', 1), (''floor'', 1), (''ceil'', 1), (''round'', 1), (''max'', 2), (''min'', 2)]"

text \<open>The last loop: the first function token of the output that has no arity.\<close>

fun checkFuncs :: "token list \<Rightarrow> error option" where
  "checkFuncs [] = None"
| "checkFuncs (t # output) =
     (if tokType t = tFunc \<and> arity (val t) = None then Some (UnsupportedFunction (val t))
      else checkFuncs output)"

definition shuntingYard :: "'f golib \<Rightarrow> token list \<Rightarrow> error + token list" where
  "shuntingYard L toks =
    (case syLoop L toks ([], []) of
       Inl e \<Rightarrow> Inl e
     | Inr (output, stack) \<Rightarrow>
         (case popAll output stack of
            Inl e \<Rightarrow> Inl e
          | Inr output' \<Rightarrow>
              (case checkFuncs output' of
                 Some e \<Rightarrow> Inl e
               | None \<Rightarrow> Inr output')))"

section \<open>The evaluator\<close>

text \<open>
  One iteration of the loop of \<open>evalRPN\<close>. The head of \<open>st\<close> is \<open>st[len(st)-1]\<close>, so
  \<open>st[len(st)-nargs:]\<close> is \<open>rev (take nargs st)\<close>. A token of type \<open>tLParen\<close>,
  \<open>tRParen\<close> or \<open>tComma\<close> matches no case of the switch and leaves the stack as it is.
\<close>

definition evalStep :: "'f golib \<Rightarrow> 'f \<Rightarrow> token \<Rightarrow> 'f list \<Rightarrow> error + 'f list" where
  "evalStep L lastAns t st =
    (case tokType t of
       tNumber \<Rightarrow>
         (case parseFloat L (val t) of
            None \<Rightarrow> Inl (ParseFloatError (val t))
          | Some v \<Rightarrow> Inr (v # st))
     | tIdent \<Rightarrow>
         (if val t = ''ans'' then Inr (lastAns # st)
          else case constants L (val t) of
                 Some c \<Rightarrow> Inr (c # st)
               | None \<Rightarrow> Inl (UnknownIdentifier (val t)))
     | tOp \<Rightarrow>
         (if unary (ops L (val t)) then
            (if length st < 1 then Inl UnaryWithoutOperand
             else
               (let b = hd st; st' = tl st in
                case fn (ops L (val t)) of
                  None \<Rightarrow> Inl RuntimePanic
                | Some f \<Rightarrow> Inr (f (fzero L) b # st')))
          else
            (if length st < 2 then Inl BinaryTooFewOperands
             else
               (let b = st ! 0; a = st ! 1; st' = drop 2 st in
                if val t = ''/'' \<and> feq L b (fzero L) then Inl DivisionByZero
                else case fn (ops L (val t)) of
                       None \<Rightarrow> Inl RuntimePanic
                     | Some f \<Rightarrow> Inr (f a b # st'))))
     | tFunc \<Rightarrow>
         (let nargs = (if val t = ''max'' \<or> val t = ''min'' then 2 else 1) in
          if length st < nargs then Inl (FunctionTooFewArgs (val t))
          else
            (let args = rev (take nargs st); st' = drop nargs st in
             case functionsMap L (val t) of
               None \<Rightarrow> Inl RuntimePanic
             | Some f \<Rightarrow>
                 (case f args of
                    Inl e \<Rightarrow> Inl e
                  | Inr res \<Rightarrow> Inr (res # st'))))
     | _ \<Rightarrow> Inr st)"

fun evalLoop :: "'f golib \<Rightarrow> 'f \<Rightarrow> token list \<Rightarrow> 'f list \<Rightarrow> error + 'f list" where
  "evalLoop L lastAns [] st = Inr st"
| "evalLoop L lastAns (t # rpn) st =
     (case evalStep L lastAns t st of
        Inl e \<Rightarrow> Inl e
      | Inr st' \<Rightarrow> evalLoop L lastAns rpn st')"

definition evalRPN :: "'f golib \<Rightarrow> token list \<Rightarrow> 'f \<Rightarrow> error + 'f" where
  "evalRPN L rpn lastAns =
    (case evalLoop L lastAns rpn [] of
       Inl e \<Rightarrow> Inl e
     | Inr st \<Rightarrow> if length st \<noteq> 1 then Inl InvalidExpression else Inr (st ! 0))"

definition evalExpr :: "'f golib \<Rightarrow> string \<Rightarrow> 'f \<Rightarrow> error + 'f" where
  "evalExpr L expr lastAns =
    (case tokenize L expr of
       Inl e \<Rightarrow> Inl e
     | Inr toks \<Rightarrow>
         (case shuntingYard L toks of
            Inl e \<Rightarrow> Inl e
          | Inr rpn \<Rightarrow> evalRPN L rpn lastAns))"

section \<open>Decimal literals and an exact interpretation of the library\<close>

text \<open>
  The decimal syntax that \<open>strconv.ParseFloat\<close> accepts on the lexer's alphabet: digits
  with at most one decimal point and at least one digit, then optionally \<open>e\<close> or \<open>E\<close>, an
  optional sign and at least one digit. \<open>literalParts\<close> splits a text into the digits
  before the point, the digits after it, and what follows the mantissa.
\<close>

definition literalParts :: "string \<Rightarrow> string \<times> string \<times> string" where
  "literalParts s =
    (let ip = takeWhile isDigit s; r1 = dropWhile isDigit s in
     case r1 of
       [] \<Rightarrow> (ip, [], [])
     | c # r \<Rightarrow>
         if c = CHR ''.'' then (ip, takeWhile isDigit r, dropWhile isDigit r)
         else (ip, [], r1))"

definition digitsValue :: "string \<Rightarrow> nat" where
  "digitsValue ds = foldl (\<lambda>n c. 10 * n + (code c - 48)) 0 ds"

text \<open>The exponent part: \<open>None\<close> when it is malformed, the exponent otherwise.\<close>

definition exponentPart :: "string \<Rightarrow> int option" where
  "exponentPart r =
    (case r of
       [] \<Rightarrow> Some 0
     | c # r1 \<Rightarrow>
         if c = CHR ''e'' \<or> c = CHR ''E'' then
           (let neg = (r1 \<noteq> [] \<and> hd r1 = CHR ''-'');
                ds = (if r1 \<noteq> [] \<and> (hd r1 = CHR ''+'' \<or> hd r1 = CHR ''-'') then tl r1 else r1)
            in if ds \<noteq> [] \<and> list_all isDigit ds
               then Some (if neg then - int (digitsValue ds) else int (digitsValue ds))
               else None)
         else None)"

definition isFloatLiteral :: "string \<Rightarrow> bool" where
  "isFloatLiteral s =
    (case literalParts s of
       (ip, fp, r) \<Rightarrow> ip @ fp \<noteq> [] \<and> exponentPart r \<noteq> None)"

definition literalValue :: "string \<Rightarrow> real option" where
  "literalValue s =
    (case literalParts s of
       (ip, fp, r) \<Rightarrow>
         if ip @ fp = [] then None
         else
           (case exponentPart r of
              None \<Rightarrow> None
            | Some x \<Rightarrow>
                Some (if x < 0
                      then real (digitsValue (ip @ fp)) / 10 ^ length fp / 10 ^ nat (- x)
                      else real (digitsValue (ip @ fp)) / 10 ^ length fp * 10 ^ nat x)))"

text \<open>
  An interpretation of the library on which the embedding runs at concrete inputs: exact
  arithmetic on the reals, with one more value for a result that is not a real number.
  It is not binary64 (there is no rounding, no infinity and no signed zero); it agrees
  with binary64 wherever the binary64 operation is exact. The theorems are not about
  this interpretation: it instantiates them.
\<close>

datatype exact = Fin real | NaN

definition exact1 :: "(real \<Rightarrow> real) \<Rightarrow> exact \<Rightarrow> exact" where
  "exact1 f x = (case x of Fin a \<Rightarrow> Fin (f a) | NaN \<Rightarrow> NaN)"

definition exact2 :: "(real \<Rightarrow> real \<Rightarrow> exact) \<Rightarrow> exact \<Rightarrow> exact \<Rightarrow> exact" where
  "exact2 f x y =
    (case x of
       Fin a \<Rightarrow> (case y of Fin b \<Rightarrow> f a b | NaN \<Rightarrow> NaN)
     | NaN \<Rightarrow> NaN)"

definition exactRel :: "(real \<Rightarrow> real \<Rightarrow> bool) \<Rightarrow> exact \<Rightarrow> exact \<Rightarrow> bool" where
  "exactRel r x y =
    (case x of
       Fin a \<Rightarrow> (case y of Fin b \<Rightarrow> r a b | NaN \<Rightarrow> False)
     | NaN \<Rightarrow> False)"

text \<open>Powers: of a positive base, of zero, and of a negative base to an integer.\<close>

definition exactPow :: "exact \<Rightarrow> exact \<Rightarrow> exact" where
  "exactPow =
    exact2 (\<lambda>a b.
      if 0 < a then Fin (a powr b)
      else if b = of_int \<lfloor>b\<rfloor> \<and> (a \<noteq> 0 \<or> 0 \<le> b) then
        (if 0 \<le> b then Fin (a ^ nat \<lfloor>b\<rfloor>) else Fin (1 / a ^ nat (- \<lfloor>b\<rfloor>)))
      else if a = 0 \<and> 0 < b then Fin 0
      else NaN)"

definition exactLib :: "exact golib" where
  "exactLib =
    \<lparr>parseFloat = (\<lambda>s. map_option Fin (literalValue s)),
     fzero = Fin 0,
     fadd = exact2 (\<lambda>a b. Fin (a + b)),
     fsub = exact2 (\<lambda>a b. Fin (a - b)),
     fmul = exact2 (\<lambda>a b. Fin (a * b)),
     fdiv = exact2 (\<lambda>a b. if b = 0 then NaN else Fin (a / b)),
     fneg = exact1 uminus,
     feq = exactRel (=),
     flt = exactRel (<),
     fgt = exactRel (>),
     isNaN = (\<lambda>x. x = NaN),
     mathPow = exactPow,
     mathSin = exact1 sin,
     mathCos = exact1 cos,
     mathTan = exact1 tan,
     mathSqrt = (\<lambda>x. case x of Fin a \<Rightarrow> if a < 0 then NaN else Fin (sqrt a) | NaN \<Rightarrow> NaN),
     mathLog10 = (\<lambda>x. case x of Fin a \<Rightarrow> if a \<le> 0 then NaN else Fin (log 10 a) | NaN \<Rightarrow> NaN),
     mathLog = (\<lambda>x. case x of Fin a \<Rightarrow> if a \<le> 0 then NaN else Fin (ln a) | NaN \<Rightarrow> NaN),
     mathAbs = exact1 abs,
     mathFloor = exact1 (\<lambda>a. of_int \<lfloor>a\<rfloor>),
     mathCeil = exact1 (\<lambda>a. of_int \<lceil>a\<rceil>),
     mathRound = exact1 (\<lambda>a. sgn a * of_int \<lfloor>\<bar>a\<bar> + 1 / 2\<rfloor>),
     mathPi = Fin pi,
     mathE = Fin (exp 1)\<rparr>"

section \<open>Notions used by the statements\<close>

subsection \<open>Sign tokens and their context\<close>

text \<open>
  A sign token is an operator token that the lexer emits for a \<open>+\<close> or a \<open>-\<close>: the binary
  \<open>+\<close>, \<open>-\<close> or the unary \<open>u+\<close>, \<open>u-\<close>. Its context is unary when it is the first token
  or the token before it is an operator or a left parenthesis.
\<close>

definition isSignToken :: "token \<Rightarrow> bool" where
  "isSignToken t \<longleftrightarrow>
     tokType t = tOp \<and> (val t = ''+'' \<or> val t = ''-'' \<or> val t = ''u+'' \<or> val t = ''u-'')"

definition isUnarySign :: "token \<Rightarrow> bool" where
  "isUnarySign t \<longleftrightarrow> tokType t = tOp \<and> (val t = ''u+'' \<or> val t = ''u-'')"

definition isBinarySign :: "token \<Rightarrow> bool" where
  "isBinarySign t \<longleftrightarrow> tokType t = tOp \<and> (val t = ''+'' \<or> val t = ''-'')"

definition unaryContext :: "token list \<Rightarrow> nat \<Rightarrow> bool" where
  "unaryContext toks k \<longleftrightarrow>
     k = 0 \<or> tokType (toks ! (k - 1)) = tOp \<or> tokType (toks ! (k - 1)) = tLParen"

subsection \<open>The shape of a number token\<close>

text \<open>
  What the numeral case of the lexer can emit: a digit or a point, then digits and
  points, then optionally \<open>e\<close> or \<open>E\<close>, an optional sign, and digits and points again.
\<close>

definition isMantissaChar :: "char \<Rightarrow> bool" where
  "isMantissaChar c \<longleftrightarrow> isDigit c \<or> c = CHR ''.''"

definition afterExponentMark :: "string \<Rightarrow> bool" where
  "afterExponentMark s =
    (case s of
       [] \<Rightarrow> True
     | c # cs \<Rightarrow>
         if c = CHR ''+'' \<or> c = CHR ''-'' then list_all isMantissaChar cs
         else list_all isMantissaChar s)"

fun numberTail :: "string \<Rightarrow> bool" where
  "numberTail [] = True"
| "numberTail (c # cs) =
     (if isMantissaChar c then numberTail cs
      else (c = CHR ''e'' \<or> c = CHR ''E'') \<and> afterExponentMark cs)"

definition numberShape :: "string \<Rightarrow> bool" where
  "numberShape s = (case s of [] \<Rightarrow> False | c # cs \<Rightarrow> isMantissaChar c \<and> numberTail cs)"

subsection \<open>Expressions of literals, prefix signs and binary operators\<close>

text \<open>
  An expression built from numeric literals, the prefix signs and the five binary
  operators, as a tree. Each node carries the blanks that stand before its token in the
  text: before the literal, before the sign, before the binary operator. \<open>render\<close>
  writes the tree as text, without parentheses.
\<close>

datatype binop = Add | Sub | Mul | Div | Pow

datatype sign = Minus | Plus

datatype expr = Lit string string | Signed sign string expr | Bin binop string expr expr

fun opSymbol :: "binop \<Rightarrow> char" where
  "opSymbol Add = CHR ''+''"
| "opSymbol Sub = CHR ''-''"
| "opSymbol Mul = CHR ''*''"
| "opSymbol Div = CHR ''/''"
| "opSymbol Pow = CHR ''^''"

fun signSymbol :: "sign \<Rightarrow> char" where
  "signSymbol Minus = CHR ''-''"
| "signSymbol Plus = CHR ''+''"

fun render :: "expr \<Rightarrow> string" where
  "render (Lit w n) = w @ n"
| "render (Signed s w e) = w @ signSymbol s # render e"
| "render (Bin b w l r) = render l @ w @ opSymbol b # render r"

fun blanksOk :: "expr \<Rightarrow> bool" where
  "blanksOk (Lit w n) = list_all isSpace w"
| "blanksOk (Signed s w e) = (list_all isSpace w \<and> blanksOk e)"
| "blanksOk (Bin b w l r) = (list_all isSpace w \<and> blanksOk l \<and> blanksOk r)"

fun literalsOk :: "expr \<Rightarrow> bool" where
  "literalsOk (Lit w n) = isFloatLiteral n"
| "literalsOk (Signed s w e) = literalsOk e"
| "literalsOk (Bin b w l r) = (literalsOk l \<and> literalsOk r)"

text \<open>
  The reading of such a text by the precedences of the table \<open>ops\<close>. Among the binary
  operators it is the standard one: \<open>^\<close> binds tighter than \<open>*\<close> and \<open>/\<close>, which bind
  tighter than \<open>+\<close> and \<open>-\<close>; \<open>^\<close> groups to the right, the other four to the left. A
  prefix sign binds tighter than every binary operator, \<open>^\<close> included. A tree is the
  reading of its own text when no operand would need parentheses: an operand binds at
  least as tightly as the operator above it, and strictly tighter on the side to which
  the operator does not group; the operand of a prefix sign is a literal or carries a
  prefix sign itself.
\<close>

fun level :: "binop \<Rightarrow> int" where
  "level Add = 1"
| "level Sub = 1"
| "level Mul = 2"
| "level Div = 2"
| "level Pow = 3"

fun groupsRight :: "binop \<Rightarrow> bool" where
  "groupsRight Add = False"
| "groupsRight Sub = False"
| "groupsRight Mul = False"
| "groupsRight Div = False"
| "groupsRight Pow = True"

fun rootLevel :: "expr \<Rightarrow> int" where
  "rootLevel (Lit w n) = 5"
| "rootLevel (Signed s w e) = 4"
| "rootLevel (Bin b w l r) = level b"

fun tableReading :: "expr \<Rightarrow> bool" where
  "tableReading (Lit w n) = True"
| "tableReading (Signed s w e) = (tableReading e \<and> 4 \<le> rootLevel e)"
| "tableReading (Bin b w l r) =
     (tableReading l \<and> tableReading r \<and>
      (if groupsRight b then level b < rootLevel l \<and> level b \<le> rootLevel r
       else level b \<le> rootLevel l \<and> level b < rootLevel r))"

text \<open>
  The value of a tree: the operands from left to right, then the operator, with the
  quotient by a zero divisor undefined (the division-by-zero error) and a literal that
  the library rejects undefined as well.
\<close>

fun applyOp :: "'f golib \<Rightarrow> binop \<Rightarrow> 'f \<Rightarrow> 'f \<Rightarrow> 'f" where
  "applyOp L Add x y = fadd L x y"
| "applyOp L Sub x y = fsub L x y"
| "applyOp L Mul x y = fmul L x y"
| "applyOp L Div x y = fdiv L x y"
| "applyOp L Pow x y = mathPow L x y"

fun applySign :: "'f golib \<Rightarrow> sign \<Rightarrow> 'f \<Rightarrow> 'f" where
  "applySign L Minus x = fneg L x"
| "applySign L Plus x = x"

fun evalTree :: "'f golib \<Rightarrow> expr \<Rightarrow> error + 'f" where
  "evalTree L (Lit w n) =
     (case parseFloat L n of None \<Rightarrow> Inl (ParseFloatError n) | Some v \<Rightarrow> Inr v)"
| "evalTree L (Signed s w e) =
     (case evalTree L e of
        Inl err \<Rightarrow> Inl err
      | Inr x \<Rightarrow> Inr (applySign L s x))"
| "evalTree L (Bin b w l r) =
     (case evalTree L l of
        Inl err \<Rightarrow> Inl err
      | Inr x \<Rightarrow>
          (case evalTree L r of
             Inl err \<Rightarrow> Inl err
           | Inr y \<Rightarrow>
               if b = Div \<and> feq L y (fzero L) then Inl DivisionByZero
               else Inr (applyOp L b x y)))"

text \<open>The tokens of a tree in the order of its text, and in postfix order.\<close>

fun signName :: "sign \<Rightarrow> string" where
  "signName Minus = ''u-''"
| "signName Plus = ''u+''"

fun exprTokens :: "expr \<Rightarrow> token list" where
  "exprTokens (Lit w n) = [Token tNumber n]"
| "exprTokens (Signed s w e) = Token tOp (signName s) # exprTokens e"
| "exprTokens (Bin b w l r) = exprTokens l @ [Token tOp [opSymbol b]] @ exprTokens r"

fun postfix :: "expr \<Rightarrow> token list" where
  "postfix (Lit w n) = [Token tNumber n]"
| "postfix (Signed s w e) = postfix e @ [Token tOp (signName s)]"
| "postfix (Bin b w l r) = postfix l @ postfix r @ [Token tOp [opSymbol b]]"

text \<open>
  Every text of operands separated by binary operators has such a reading, where an
  operand is a literal under any number of prefix signs. \<open>attach\<close> extends a tree by
  one operator and one operand on the right, going down the right spine to the first
  operand that binds tighter than the new operator.
\<close>

fun isOperand :: "expr \<Rightarrow> bool" where
  "isOperand (Lit w n) = True"
| "isOperand (Signed s w e) = isOperand e"
| "isOperand (Bin b w l r) = False"

fun attach :: "expr \<Rightarrow> binop \<Rightarrow> string \<Rightarrow> expr \<Rightarrow> expr" where
  "attach (Lit w n) c wc x = Bin c wc (Lit w n) x"
| "attach (Signed s w e) c wc x = Bin c wc (Signed s w e) x"
| "attach (Bin b w l r) c wc x =
     (if level c < level b \<or> (level c = level b \<and> \<not> groupsRight c)
      then Bin c wc (Bin b w l r) x
      else Bin b w l (attach r c wc x))"

fun readTable :: "expr \<Rightarrow> (binop \<times> string \<times> expr) list \<Rightarrow> expr" where
  "readTable e [] = e"
| "readTable e ((c, wc, x) # rest) = readTable (attach e c wc x) rest"

fun renderTail :: "(binop \<times> string \<times> expr) list \<Rightarrow> string" where
  "renderTail [] = []"
| "renderTail ((c, wc, x) # rest) = wc @ opSymbol c # render x @ renderTail rest"

subsection \<open>The steps of the lexer\<close>

text \<open>
  What one iteration of the main loop of \<open>tokenize\<close> can append to the tokens, given
  the tokens emitted so far and \<open>prevType\<close>, and the \<open>prevType\<close> it leaves. The two
  predicates after it are the invariant of the loop for the classification of signs.
\<close>

definition emits :: "token list \<Rightarrow> tokenType \<Rightarrow> token \<Rightarrow> tokenType \<Rightarrow> bool" where
  "emits toks p t p' \<longleftrightarrow>
     (tokType t = tNumber \<and> numberShape (val t) \<and> p' = tNumber) \<or>
     (\<exists>c. (c = CHR ''+'' \<or> c = CHR ''-'') \<and> p' = tOp \<and>
          t = Token tOp (if p = tOp \<or> p = tLParen \<or> toks = [] then [CHR ''u'', c] else [c])) \<or>
     (\<exists>c. (c = CHR ''*'' \<or> c = CHR ''/'' \<or> c = CHR ''^'') \<and> p' = tOp \<and> t = Token tOp [c]) \<or>
     (t = Token tLParen ''('' \<and> p' = tLParen) \<or>
     (t = Token tRParen '')'' \<and> p' = tRParen) \<or>
     (t = Token tComma '','' \<and> p' = tComma) \<or>
     ((tokType t = tFunc \<or> tokType t = tIdent) \<and> p' = tIdent)"

definition signsOk :: "token list \<Rightarrow> bool" where
  "signsOk toks \<longleftrightarrow> (\<forall>k < length toks. isSignToken (toks ! k) \<longrightarrow>
      (isUnarySign (toks ! k) \<longleftrightarrow> unaryContext toks k))"

definition prevOk :: "token list \<Rightarrow> tokenType \<Rightarrow> bool" where
  "prevOk toks p \<longleftrightarrow> (toks \<noteq> [] \<longrightarrow>
      ((p = tOp \<or> p = tLParen) \<longleftrightarrow> (tokType (last toks) = tOp \<or> tokType (last toks) = tLParen)))"

subsection \<open>The pieces of a line\<close>

text \<open>
  The pieces into which the main loop of \<open>tokenize\<close> cuts a line: a blank, the text of
  a number token, a sign character read by the loop itself, and any other text that
  gives one token (an operator \<open>*\<close>, \<open>/\<close>, \<open>^\<close>, a parenthesis, a comma, an identifier).
  \<open>piecesTokens\<close> gives the tokens of a sequence of pieces after the tokens \<open>toks\<close>; for a
  sign it is the unary operator when no token stands before it or the last one is an
  operator or a left parenthesis, and the binary operator otherwise.
\<close>

datatype piece = Blank char | Numeral string | Sign char | Other string token

fun pieceText :: "piece \<Rightarrow> string" where
  "pieceText (Blank c) = [c]"
| "pieceText (Numeral w) = w"
| "pieceText (Sign c) = [c]"
| "pieceText (Other w t) = w"

fun pieceOk :: "piece \<Rightarrow> bool" where
  "pieceOk (Blank c) = isSpace c"
| "pieceOk (Numeral w) = numberShape w"
| "pieceOk (Sign c) = (c = CHR ''+'' \<or> c = CHR ''-'')"
| "pieceOk (Other w t) =
     (w \<noteq> [] \<and> CHR ''+'' \<notin> set w \<and> CHR ''-'' \<notin> set w \<and>
      tokType t \<noteq> tNumber \<and> \<not> isSignToken t)"

definition signToken :: "token list \<Rightarrow> char \<Rightarrow> token" where
  "signToken toks c =
    Token tOp (if toks = [] \<or> tokType (last toks) = tOp \<or> tokType (last toks) = tLParen
               then [CHR ''u'', c] else [c])"

fun piecesTokens :: "token list \<Rightarrow> piece list \<Rightarrow> token list" where
  "piecesTokens toks [] = toks"
| "piecesTokens toks (Blank c # ps) = piecesTokens toks ps"
| "piecesTokens toks (Numeral w # ps) = piecesTokens (toks @ [Token tNumber w]) ps"
| "piecesTokens toks (Sign c # ps) = piecesTokens (toks @ [signToken toks c]) ps"
| "piecesTokens toks (Other w t # ps) = piecesTokens (toks @ [t]) ps"

definition noSign :: "string \<Rightarrow> bool" where
  "noSign w \<longleftrightarrow> CHR ''+'' \<notin> set w \<and> CHR ''-'' \<notin> set w"

subsection \<open>The states of the parser and of the numeral scan\<close>

text \<open>
  Used in the proofs about expressions. \<open>staysBelow L S q\<close>: an operator of level \<open>q\<close>
  or more leaves the stack \<open>S\<close> as it is. \<open>pendingOps L pend q\<close>: \<open>pend\<close> holds operators
  of precedence \<open>q\<close> or more. \<open>stopsNumber rest\<close>: the scan of a numeral ends before
  \<open>rest\<close>. \<open>isExponent\<close>: a well-formed exponent part. \<open>plainText\<close>: no byte that starts
  a white-space code point of two or three bytes.
\<close>

definition staysBelow :: "'f golib \<Rightarrow> token list \<Rightarrow> int \<Rightarrow> bool" where
  "staysBelow L S q \<longleftrightarrow>
     S = [] \<or> tokType (hd S) \<noteq> tOp \<or> prec (ops L (val (hd S))) < q \<or>
     (prec (ops L (val (hd S))) = q \<and> (q = 3 \<or> q = 4))"

definition pendingOps :: "'f golib \<Rightarrow> token list \<Rightarrow> int \<Rightarrow> bool" where
  "pendingOps L pend q \<longleftrightarrow> (\<forall>t\<in>set pend. tokType t = tOp \<and> q \<le> prec (ops L (val t)))"

definition plainText :: "string \<Rightarrow> bool" where
  "plainText s \<longleftrightarrow> (\<forall>c\<in>set s. code c \<noteq> 194 \<and> code c \<noteq> 225 \<and> code c \<noteq> 226 \<and> code c \<noteq> 227)"

definition stopsNumber :: "string \<Rightarrow> bool" where
  "stopsNumber rest \<longleftrightarrow>
     rest = [] \<or> (\<not> isDigit (hd rest) \<and> hd rest \<noteq> CHR ''.'' \<and> hd rest \<noteq> CHR ''e'' \<and> hd rest \<noteq> CHR ''E'')"

definition isExponent :: "string \<Rightarrow> bool" where
  "isExponent ex \<longleftrightarrow>
     (\<exists>m sg ds. ex = m # sg @ ds \<and> (m = CHR ''e'' \<or> m = CHR ''E'') \<and>
        (sg = [] \<or> sg = ''+'' \<or> sg = ''-'') \<and> ds \<noteq> [] \<and> list_all isDigit ds)"

section \<open>Running the embedding\<close>

lemmas char_defs = code_def isSpace_def isDigit_def isLetter_def isIdentStart_def isIdent_def
  asciiSpace_def space2_def space3_def lowerByte_def toLower_def

lemmas table_defs = functionsMap_def functionsList_def constants_def ops_def opsTable_def
  arity_def arg0_def sqrtFn_def maxFn_def minFn_def

lemmas stage_defs = evalExpr_def tokenize_def trimSpace_def shuntingYard_def syStep_def
  evalRPN_def evalStep_def

lemmas literal_defs = literalParts_def digitsValue_def exponentPart_def isFloatLiteral_def
  literalValue_def

lemmas exact_defs = exactLib_def exactPow_def exact1_def exact2_def exactRel_def

lemma evalLoop_append:
  "evalLoop L a (xs @ ys) st =
     (case evalLoop L a xs st of Inl e \<Rightarrow> Inl e | Inr st' \<Rightarrow> evalLoop L a ys st')"
  by (induction xs arbitrary: st) (auto split: sum.splits)

lemma evalLoop_stops:
  "evalLoop L a xs [] = Inr st' \<Longrightarrow> evalStep L a t st' = Inl e \<Longrightarrow>
     evalRPN L (xs @ t # ys) a = Inl e"
  by (simp add: evalRPN_def evalLoop_append)

section \<open>Functions of two arguments\<close>

text \<open>
  \<open>max(3,9)\<close> evaluates to the value of the literal \<open>9\<close>, in every library that reads
  the two literals and in which \<open>3 > 9\<close> is false.
\<close>

lemma max_3_9:
  assumes "parseFloat L ''3'' = Some v3" and "parseFloat L ''9'' = Some v9"
    and "\<not> fgt L v3 v9"
  shows "evalExpr L ''max(3,9)'' a = Inr v9"
  using assms by (simp add: stage_defs char_defs table_defs)

text \<open>
  Claim C3, at \<open>min(4,-2)\<close>: the claim is that the text evaluates to \<open>-2\<close>. The sign follows
  an argument separator, which is none of the three contexts in which the lexer emits a
  unary operator, so it becomes the binary \<open>-\<close>. The postfix form is \<open>4 2 - min\<close>: the
  subtraction leaves one value, and \<open>min\<close> fails for want of a second argument. In no
  library does the text evaluate to a value.
\<close>

theorem min_4_neg_2_fails:
  "evalExpr L ''min(4,-2)'' a =
     (case parseFloat L ''4'' of
        None \<Rightarrow> Inl (ParseFloatError ''4'')
      | Some v4 \<Rightarrow>
          (case parseFloat L ''2'' of
             None \<Rightarrow> Inl (ParseFloatError ''2'')
           | Some v2 \<Rightarrow> Inl (FunctionTooFewArgs ''min'')))"
  by (simp add: stage_defs char_defs table_defs split: option.splits)

lemma min_4_neg_2_tokens:
  "tokenize L ''min(4,-2)'' =
     Inr [Token tFunc ''min'', Token tLParen ''('', Token tNumber ''4'', Token tComma '','',
          Token tOp ''-'', Token tNumber ''2'', Token tRParen '')'']"
  by (simp add: stage_defs char_defs table_defs)

lemma min_4_space_neg_2_fails:
  "parseFloat L ''4'' = Some v4 \<Longrightarrow> parseFloat L ''2'' = Some v2 \<Longrightarrow>
     evalExpr L ''min(4, -2)'' a = Inl (FunctionTooFewArgs ''min'')"
  by (simp add: stage_defs char_defs table_defs)

section \<open>Errors of the evaluator\<close>

text \<open>
  Claim C4: whenever \<open>evalRPN\<close> reaches the operator \<open>/\<close> with at least two values on the
  stack and the upper one, the right operand \<open>b\<close>, satisfies \<open>b == 0\<close>, the evaluation
  ends with the division-by-zero error, whatever follows in the postfix sequence: no
  quotient is computed. In particular \<open>1/0\<close> ends with that error, in every library that
  reads the two literals and in which the value of \<open>0\<close> equals zero.
\<close>

theorem division_by_zero_fails:
  "(evalLoop L a pre [] = Inr (b # x # st) \<longrightarrow> feq L b (fzero L) \<longrightarrow>
      evalRPN L (pre @ Token tOp ''/'' # post) a = Inl DivisionByZero) \<and>
   (parseFloat L ''1'' = Some v1 \<longrightarrow> parseFloat L ''0'' = Some v0 \<longrightarrow> feq L v0 (fzero L) \<longrightarrow>
      evalExpr L ''1/0'' a = Inl DivisionByZero)"
proof (intro conjI impI)
  assume run: "evalLoop L a pre [] = Inr (b # x # st)" and zero: "feq L b (fzero L)"
  have "evalStep L a (Token tOp ''/'') (b # x # st) = Inl DivisionByZero"
    using zero by (simp add: evalStep_def table_defs)
  with run show "evalRPN L (pre @ Token tOp ''/'' # post) a = Inl DivisionByZero"
    by (rule evalLoop_stops)
next
  assume "parseFloat L ''1'' = Some v1" "parseFloat L ''0'' = Some v0" "feq L v0 (fzero L)"
  then show "evalExpr L ''1/0'' a = Inl DivisionByZero"
    by (simp add: stage_defs char_defs table_defs)
qed

theorem division_by_zero_fails_witness:
  "evalLoop exactLib (Fin 7) [Token tNumber ''1'', Token tNumber ''0''] [] = Inr [Fin 0, Fin 1] \<and>
   feq exactLib (Fin 0) (fzero exactLib) \<and>
   evalRPN exactLib ([Token tNumber ''1'', Token tNumber ''0''] @ Token tOp ''/'' # []) (Fin 7)
     = Inl DivisionByZero \<and>
   parseFloat exactLib ''1'' = Some (Fin 1) \<and> parseFloat exactLib ''0'' = Some (Fin 0) \<and>
   evalExpr exactLib ''1/0'' (Fin 7) = Inl DivisionByZero"
  using division_by_zero_fails [of exactLib "Fin 7" "[Token tNumber ''1'', Token tNumber ''0'']"
      "Fin 0" "Fin 1" "[]" "[]" "Fin 1" "Fin 0"]
  by (simp add: evalStep_def char_defs literal_defs exact_defs)

text \<open>
  Claim C5: whenever \<open>evalRPN\<close> reaches the function \<open>sqrt\<close> with a value \<open>x\<close> on top of the
  stack and \<open>x < 0\<close>, the evaluation ends with the error of the square root of a negative
  number; no numeric result is produced. In particular \<open>sqrt(-1)\<close> ends with that
  error, in every library that reads the literal \<open>1\<close> and in which \<open>-1 < 0\<close>.
\<close>

theorem sqrt_of_negative_fails:
  "(evalLoop L a pre [] = Inr (x # st) \<longrightarrow> flt L x (fzero L) \<longrightarrow>
      evalRPN L (pre @ Token tFunc ''sqrt'' # post) a = Inl SqrtOfNegative) \<and>
   (parseFloat L ''1'' = Some v1 \<longrightarrow> flt L (fneg L v1) (fzero L) \<longrightarrow>
      evalExpr L ''sqrt(-1)'' a = Inl SqrtOfNegative)"
proof (intro conjI impI)
  assume run: "evalLoop L a pre [] = Inr (x # st)" and neg: "flt L x (fzero L)"
  have "evalStep L a (Token tFunc ''sqrt'') (x # st) = Inl SqrtOfNegative"
    using neg by (simp add: evalStep_def table_defs)
  with run show "evalRPN L (pre @ Token tFunc ''sqrt'' # post) a = Inl SqrtOfNegative"
    by (rule evalLoop_stops)
next
  assume "parseFloat L ''1'' = Some v1" "flt L (fneg L v1) (fzero L)"
  then show "evalExpr L ''sqrt(-1)'' a = Inl SqrtOfNegative"
    by (simp add: stage_defs char_defs table_defs)
qed

theorem sqrt_of_negative_fails_witness:
  "evalLoop exactLib (Fin 7) [Token tNumber ''1'', Token tOp ''u-''] [] = Inr [Fin (- 1)] \<and>
   flt exactLib (Fin (- 1)) (fzero exactLib) \<and>
   evalRPN exactLib ([Token tNumber ''1'', Token tOp ''u-''] @ Token tFunc ''sqrt'' # []) (Fin 7)
     = Inl SqrtOfNegative \<and>
   parseFloat exactLib ''1'' = Some (Fin 1) \<and>
   evalExpr exactLib ''sqrt(-1)'' (Fin 7) = Inl SqrtOfNegative"
  using sqrt_of_negative_fails [of exactLib "Fin 7" "[Token tNumber ''1'', Token tOp ''u-'']"
      "Fin (- 1)" "[]" "[]" "Fin 1"]
  by (simp add: evalStep_def char_defs table_defs literal_defs exact_defs)

text \<open>
  Claim C8: a function token needs two values on the stack when it is \<open>max\<close> or \<open>min\<close>
  and one otherwise; with fewer, the step fails with the too-few-arguments error. So
  does \<open>max(3)\<close>: its postfix form is \<open>3 max\<close>, and \<open>max\<close> finds one value. This holds
  in every library that reads the literal \<open>3\<close>.
\<close>

theorem max_of_one_argument_fails:
  "(length st < (if name = ''max'' \<or> name = ''min'' then 2 else 1) \<longrightarrow>
      evalStep L a (Token tFunc name) st = Inl (FunctionTooFewArgs name)) \<and>
   (parseFloat L ''3'' = Some v3 \<longrightarrow>
      shuntingYard L [Token tFunc ''max'', Token tLParen ''('', Token tNumber ''3'',
                      Token tRParen '')'']
        = Inr [Token tNumber ''3'', Token tFunc ''max''] \<and>
      evalExpr L ''max(3)'' a = Inl (FunctionTooFewArgs ''max''))"
proof (intro conjI impI)
  assume "length st < (if name = ''max'' \<or> name = ''min'' then 2 else 1)"
  then show "evalStep L a (Token tFunc name) st = Inl (FunctionTooFewArgs name)"
    by (simp add: evalStep_def Let_def)
next
  assume "parseFloat L ''3'' = Some v3"
  then show "evalExpr L ''max(3)'' a = Inl (FunctionTooFewArgs ''max'')"
    by (simp add: stage_defs char_defs table_defs)
qed (simp add: stage_defs table_defs)

theorem max_of_one_argument_fails_witness:
  "length [Fin 3] < (if ''max'' = ''max'' \<or> ''max'' = ''min'' then 2 else (1::nat)) \<and>
   evalStep exactLib (Fin 7) (Token tFunc ''max'') [Fin 3] = Inl (FunctionTooFewArgs ''max'') \<and>
   parseFloat exactLib ''3'' = Some (Fin 3) \<and>
   evalExpr exactLib ''max(3)'' (Fin 7) = Inl (FunctionTooFewArgs ''max'')"
  using max_of_one_argument_fails [of "[Fin 3]" "''max''" exactLib "Fin 7" "Fin 3"]
  by (simp add: char_defs literal_defs exact_defs)

section \<open>Repeated signs\<close>

text \<open>
  Claim C9: \<open>--3\<close> evaluates to \<open>3\<close> by double negation. Both signs become the unary
  minus, the postfix form is \<open>3 u- u-\<close>, and the value is the literal negated twice,
  \<open>-(-3)\<close>, in every library that reads the literal; it is \<open>3\<close> where negation is its
  own inverse at \<open>3\<close>.
\<close>

theorem double_minus_3:
  assumes "parseFloat L ''3'' = Some v3"
  shows "tokenize L ''--3'' = Inr [Token tOp ''u-'', Token tOp ''u-'', Token tNumber ''3'']
         \<and> shuntingYard L [Token tOp ''u-'', Token tOp ''u-'', Token tNumber ''3'']
             = Inr [Token tNumber ''3'', Token tOp ''u-'', Token tOp ''u-'']
         \<and> evalRPN L [Token tNumber ''3'', Token tOp ''u-'', Token tOp ''u-''] a
             = Inr (fneg L (fneg L v3))
         \<and> evalExpr L ''--3'' a = Inr (fneg L (fneg L v3))
         \<and> (fneg L (fneg L v3) = v3 \<longrightarrow> evalExpr L ''--3'' a = Inr v3)"
  using assms by (simp add: stage_defs char_defs table_defs)

theorem double_minus_3_witness:
  "parseFloat exactLib ''3'' = Some (Fin 3) \<and>
   fneg exactLib (Fin 3) = Fin (- 3) \<and>
   fneg exactLib (fneg exactLib (Fin 3)) = Fin 3 \<and>
   evalExpr exactLib ''--3'' (Fin 7) = Inr (fneg exactLib (fneg exactLib (Fin 3))) \<and>
   evalExpr exactLib ''--3'' (Fin 7) = Inr (Fin 3)"
  using double_minus_3 [of exactLib "Fin 3" "Fin 7"]
  by (simp add: char_defs literal_defs exact_defs)

text \<open>
  A prefix sign is an operator of its own, of precedence 4 in the table \<open>ops\<close>: it binds
  tighter than \<open>^\<close>, so that \<open>-2^2\<close> is \<open>(-2)^2\<close>.
\<close>

lemma prefix_minus_binds_tighter_than_power:
  assumes "parseFloat L ''2'' = Some v2"
  shows "evalExpr L ''-2^2'' a = Inr (mathPow L (fneg L v2) v2)"
  using assms by (simp add: stage_defs char_defs table_defs)

section \<open>Functions without a domain check\<close>

text \<open>
  Of the ten functions of one argument, nine hand on what the library returns; only
  \<open>sqrt\<close> checks its argument.
\<close>

lemma unguarded_functions:
  "functionsMap L ''sin'' = Some f \<Longrightarrow> f [x] = Inr (mathSin L x)"
  "functionsMap L ''cos'' = Some f \<Longrightarrow> f [x] = Inr (mathCos L x)"
  "functionsMap L ''tan'' = Some f \<Longrightarrow> f [x] = Inr (mathTan L x)"
  "functionsMap L ''log'' = Some f \<Longrightarrow> f [x] = Inr (mathLog10 L x)"
  "functionsMap L ''ln'' = Some f \<Longrightarrow> f [x] = Inr (mathLog L x)"
  "functionsMap L ''abs'' = Some f \<Longrightarrow> f [x] = Inr (mathAbs L x)"
  "functionsMap L ''floor'' = Some f \<Longrightarrow> f [x] = Inr (mathFloor L x)"
  "functionsMap L ''ceil'' = Some f \<Longrightarrow> f [x] = Inr (mathCeil L x)"
  "functionsMap L ''round'' = Some f \<Longrightarrow> f [x] = Inr (mathRound L x)"
  by (auto simp: table_defs)

text \<open>
  Claim C10: \<open>ln(-1)\<close> and \<open>log(-1)\<close> evaluate successfully, to what \<open>math.Log\<close> and
  \<open>math.Log10\<close> return at \<open>-1\<close>: no check stands between the library and the result.
  Where the library returns NaN there, as Go's does, the result of the evaluation is NaN.
\<close>

theorem log_of_negative_is_returned:
  assumes "parseFloat L ''1'' = Some v1"
    and "isNaN L (mathLog L (fneg L v1))" and "isNaN L (mathLog10 L (fneg L v1))"
  shows "(\<exists>r. evalExpr L ''ln(-1)'' a = Inr r \<and> r = mathLog L (fneg L v1) \<and> isNaN L r) \<and>
         (\<exists>r. evalExpr L ''log(-1)'' a = Inr r \<and> r = mathLog10 L (fneg L v1) \<and> isNaN L r)"
  using assms by (simp add: stage_defs char_defs table_defs)

theorem log_of_negative_is_returned_witness:
  "parseFloat exactLib ''1'' = Some (Fin 1) \<and>
   isNaN exactLib (mathLog exactLib (fneg exactLib (Fin 1))) \<and>
   isNaN exactLib (mathLog10 exactLib (fneg exactLib (Fin 1))) \<and>
   evalExpr exactLib ''ln(-1)'' (Fin 7) = Inr NaN \<and>
   evalExpr exactLib ''log(-1)'' (Fin 7) = Inr NaN"
  using log_of_negative_is_returned [of exactLib "Fin 1" "Fin 7"]
  by (simp add: char_defs literal_defs exact_defs)

section \<open>The final stack\<close>

text \<open>
  Claim C6: \<open>evalRPN\<close> returns a value exactly when the loop over the postfix sequence
  ends without an error and leaves exactly one value on the stack, and that value is the
  result. When the loop ends without an error and leaves no value or more than one,
  \<open>evalRPN\<close> fails with the invalid-expression error; an error of the loop is returned
  as it is.
\<close>

theorem evalRPN_value_iff_single:
  "(evalRPN L rpn a = Inr v \<longleftrightarrow> evalLoop L a rpn [] = Inr [v]) \<and>
   (\<forall>st. evalLoop L a rpn [] = Inr st \<longrightarrow> length st \<noteq> 1 \<longrightarrow>
      evalRPN L rpn a = Inl InvalidExpression) \<and>
   (\<forall>e. evalLoop L a rpn [] = Inl e \<longrightarrow> evalRPN L rpn a = Inl e)"
proof (intro conjI allI impI)
  show "evalRPN L rpn a = Inr v \<longleftrightarrow> evalLoop L a rpn [] = Inr [v]"
  proof (cases "evalLoop L a rpn []")
    case (Inl e)
    then show ?thesis by (simp add: evalRPN_def)
  next
    case (Inr st)
    then show ?thesis
      by (cases st; cases "tl st") (auto simp: evalRPN_def)
  qed
qed (simp_all add: evalRPN_def)

theorem evalRPN_value_iff_single_witness:
  "evalLoop exactLib (Fin 7) [Token tNumber ''1'', Token tNumber ''2''] [] = Inr [Fin 2, Fin 1] \<and>
   evalRPN exactLib [Token tNumber ''1'', Token tNumber ''2''] (Fin 7) = Inl InvalidExpression \<and>
   evalLoop exactLib (Fin 7) [] [] = Inr [] \<and>
   evalRPN exactLib [] (Fin 7) = Inl InvalidExpression \<and>
   evalLoop exactLib (Fin 7) [Token tOp ''+''] [] = Inl BinaryTooFewOperands \<and>
   evalRPN exactLib [Token tOp ''+''] (Fin 7) = Inl BinaryTooFewOperands \<and>
   evalRPN exactLib [Token tIdent ''ans''] (Fin 7) = Inr (Fin 7)"
  using evalRPN_value_iff_single [of exactLib "[Token tNumber ''1'', Token tNumber ''2'']" "Fin 7" "Fin 0"]
    evalRPN_value_iff_single [of exactLib "[]" "Fin 7" "Fin 0"]
    evalRPN_value_iff_single [of exactLib "[Token tOp ''+'']" "Fin 7" "Fin 0"]
    evalRPN_value_iff_single [of exactLib "[Token tIdent ''ans'']" "Fin 7" "Fin 7"]
  by (simp add: evalStep_def char_defs table_defs literal_defs exact_defs)

section \<open>The lexer, step by step\<close>

lemma scan_True_mantissa: "list_all isMantissaChar (take (scanNumber True rs) rs)"
  by (induction rs) (auto simp: isMantissaChar_def)

lemma numberTail_scan: "numberTail (take (scanNumber False rs) rs)"
proof (induction rs)
  case Nil
  then show ?case by simp
next
  case (Cons r rs)
  show ?case
  proof (cases "isDigit r \<or> r = CHR ''.''")
    case True
    with Cons show ?thesis by (auto simp: isMantissaChar_def)
  next
    case False
    show ?thesis
    proof (cases "r = CHR ''e'' \<or> r = CHR ''E''")
      case True
      with False show ?thesis
        using scan_True_mantissa[of rs] scan_True_mantissa[of "tl rs"]
        by (cases rs) (auto simp: isMantissaChar_def afterExponentMark_def char_defs)
    next
      case False
      with \<open>\<not> (isDigit r \<or> r = CHR ''.'')\<close> show ?thesis by simp
    qed
  qed
qed

lemma tokenizeFrom_step:
  assumes "tokenizeFrom L (ch # rest) toks p = Inr res"
  shows "(isSpace ch \<and> tokenizeFrom L rest toks p = Inr res) \<or>
         (\<exists>t p' rest'. emits toks p t p' \<and> length rest' \<le> length rest \<and>
              tokenizeFrom L rest' (toks @ [t]) p' = Inr res)"
proof (cases "isSpace ch")
  case True
  with assms show ?thesis by simp
next
  case ns: False
  show ?thesis
  proof (cases "isDigit ch \<or> ch = CHR ''.''")
    case True
    let ?n = "scanNumber False rest"
    let ?t = "Token tNumber (ch # take ?n rest)"
    from assms ns True have "tokenizeFrom L (drop ?n rest) (toks @ [?t]) tNumber = Inr res"
      by (simp add: Let_def)
    moreover have "emits toks p ?t tNumber"
      using True numberTail_scan[of rest] by (simp add: emits_def numberShape_def isMantissaChar_def)
    ultimately show ?thesis by (intro disjI2 exI[of _ ?t] exI[of _ tNumber] exI[of _ "drop ?n rest"]) simp
  next
    case nd: False
    show ?thesis
    proof (cases "ch = CHR ''+'' \<or> ch = CHR ''-''")
      case True
      let ?t = "Token tOp (if p = tOp \<or> p = tLParen \<or> toks = [] then [CHR ''u'', ch] else [ch])"
      from assms ns nd True have "tokenizeFrom L rest (toks @ [?t]) tOp = Inr res"
        by (auto simp: Let_def)
      moreover have "emits toks p ?t tOp"
        using True unfolding emits_def by blast
      ultimately show ?thesis by (intro disjI2 exI[of _ ?t] exI[of _ tOp] exI[of _ rest]) simp
    next
      case nsg: False
      show ?thesis
      proof (cases "ch = CHR ''*'' \<or> ch = CHR ''/'' \<or> ch = CHR ''^''")
        case True
        from assms ns nd nsg True have "tokenizeFrom L rest (toks @ [Token tOp [ch]]) tOp = Inr res"
          by simp
        moreover have "emits toks p (Token tOp [ch]) tOp"
          using True unfolding emits_def by blast
        ultimately show ?thesis
          by (intro disjI2 exI[of _ "Token tOp [ch]"] exI[of _ tOp] exI[of _ rest]) simp
      next
        case nop: False
        show ?thesis
        proof (cases "ch = CHR ''('' \<or> ch = CHR '')'' \<or> ch = CHR '',''")
          case True
          let ?t = "if ch = CHR ''('' then Token tLParen ''('' else if ch = CHR '')'' then Token tRParen '')'' else Token tComma '',''"
          let ?p = "if ch = CHR ''('' then tLParen else if ch = CHR '')'' then tRParen else tComma"
          from assms ns nd nsg nop True have "tokenizeFrom L rest (toks @ [?t]) ?p = Inr res"
            by (auto split: if_splits)
          moreover have "emits toks p ?t ?p"
            unfolding emits_def by simp
          ultimately show ?thesis
            by (intro disjI2 exI[of _ ?t] exI[of _ ?p] exI[of _ rest]) simp
        next
          case npu: False
          let ?low = "toLower (ch # takeWhile isIdent rest)"
          let ?t = "if functionsMap L ?low \<noteq> None then Token tFunc ?low else Token tIdent ?low"
          from assms ns nd nsg nop npu
          have "tokenizeFrom L (dropWhile isIdent rest) (toks @ [?t]) tIdent = Inr res"
            by (simp add: Let_def split: if_splits)
          moreover have "emits toks p ?t tIdent"
            unfolding emits_def by simp
          ultimately show ?thesis
            by (intro disjI2 exI[of _ ?t] exI[of _ tIdent] exI[of _ "dropWhile isIdent rest"])
               (simp add: length_dropWhile_le)
        qed
      qed
    qed
  qed
qed

lemma tokenizeFrom_invariant:
  assumes "tokenizeFrom L s toks p = Inr res" and "I toks p"
    and step: "\<And>toks p t p'. I toks p \<Longrightarrow> emits toks p t p' \<Longrightarrow> I (toks @ [t]) p'"
  shows "\<exists>p'. I res p'"
  using assms(1,2)
proof (induction "length s" arbitrary: s toks p rule: less_induct)
  case less
  show ?case
  proof (cases s)
    case Nil
    with less.prems show ?thesis by auto
  next
    case (Cons ch rest)
    from tokenizeFrom_step[OF less.prems(1)[unfolded Cons]]
    show ?thesis
    proof (elim disjE conjE exE)
      assume "tokenizeFrom L rest toks p = Inr res"
      from less.hyps[OF _ this less.prems(2)] Cons show ?thesis by simp
    next
      fix t p' rest'
      assume e: "emits toks p t p'" and l: "length rest' \<le> length rest"
        and r: "tokenizeFrom L rest' (toks @ [t]) p' = Inr res"
      from l Cons have "length rest' < length s" by simp
      from less.hyps[OF this r step[OF less.prems(2) e]] show ?thesis .
    qed
  qed
qed

section \<open>Unary and binary signs\<close>

lemma signsOk_snoc:
  assumes "signsOk toks"
    and "isSignToken t \<Longrightarrow> (isUnarySign t \<longleftrightarrow> toks = [] \<or> tokType (last toks) = tOp \<or> tokType (last toks) = tLParen)"
  shows "signsOk (toks @ [t])"
  unfolding signsOk_def
proof (intro allI impI)
  fix k assume k: "k < length (toks @ [t])" and s: "isSignToken ((toks @ [t]) ! k)"
  show "isUnarySign ((toks @ [t]) ! k) \<longleftrightarrow> unaryContext (toks @ [t]) k"
  proof (cases "k < length toks")
    case True
    then have "(toks @ [t]) ! k = toks ! k" "k = 0 \<or> (toks @ [t]) ! (k - 1) = toks ! (k - 1)"
      by (auto simp: nth_append)
    with assms(1) True s show ?thesis
      by (auto simp: signsOk_def unaryContext_def)
  next
    case False
    with k have keq: "k = length toks" by simp
    then have "(toks @ [t]) ! k = t" by simp
    moreover have "toks \<noteq> [] \<Longrightarrow> (toks @ [t]) ! (k - 1) = last toks"
      using keq by (simp add: nth_append last_conv_nth)
    ultimately show ?thesis using assms(2) s keq
      by (cases "toks = []") (auto simp: unaryContext_def)
  qed
qed

lemma emits_signs:
  assumes "signsOk toks \<and> prevOk toks p" and "emits toks p t p'"
  shows "signsOk (toks @ [t]) \<and> prevOk (toks @ [t]) p'"
proof
  have "isSignToken t \<Longrightarrow>
      (isUnarySign t \<longleftrightarrow> toks = [] \<or> tokType (last toks) = tOp \<or> tokType (last toks) = tLParen)"
    using assms unfolding emits_def prevOk_def isSignToken_def isUnarySign_def
    by (elim disjE exE conjE) (auto split: if_splits)
  with assms(1) show "signsOk (toks @ [t])" by (intro signsOk_snoc) auto
  show "prevOk (toks @ [t]) p'"
    using assms(2) unfolding emits_def prevOk_def
    by (elim disjE exE conjE) (auto split: if_splits)
qed

lemma tokenize_signsOk:
  assumes "tokenize L input = Inr toks"
  shows "signsOk toks"
proof -
  have start: "signsOk [] \<and> prevOk [] tOp"
    by (simp add: signsOk_def prevOk_def)
  have "\<exists>p'. signsOk toks \<and> prevOk toks p'"
    using assms[unfolded tokenize_def] start emits_signs
    by (rule tokenizeFrom_invariant[where I = "\<lambda>ts q. signsOk ts \<and> prevOk ts q"])
  then show ?thesis by blast
qed

lemma sign_not_other: "ch = CHR ''+'' \<or> ch = CHR ''-'' \<Longrightarrow> \<not> isSpace ch \<and> \<not> isDigit ch \<and> ch \<noteq> CHR ''.''"
  by (auto simp: char_defs)

lemma tokenizeFrom_sign:
  assumes "prevOk toks p" and "ch = CHR ''+'' \<or> ch = CHR ''-''"
  shows "tokenizeFrom L (ch # rest) toks p =
           tokenizeFrom L rest
             (toks @ [Token tOp (if toks = [] \<or> tokType (last toks) = tOp \<or> tokType (last toks) = tLParen
                                 then [CHR ''u'', ch] else [ch])]) tOp"
proof -
  have c: "(p = tOp \<or> p = tLParen \<or> length toks = 0) \<longleftrightarrow>
           (toks = [] \<or> tokType (last toks) = tOp \<or> tokType (last toks) = tLParen)"
    using assms(1) by (auto simp: prevOk_def)
  from assms(2) show ?thesis
  proof
    assume "ch = CHR ''+''"
    then show ?thesis by (simp add: Let_def c char_defs del: length_0_conv)
  next
    assume "ch = CHR ''-''"
    then show ?thesis by (simp add: Let_def c char_defs del: length_0_conv)
  qed
qed

text \<open>
  A sign after the exponent mark of a numeral belongs to the number token; it is not a
  sign token.
\<close>

lemma exponent_sign_is_part_of_number:
  "tokenize L ''1e+5-2e-3'' =
     Inr [Token tNumber ''1e+5'', Token tOp ''-'', Token tNumber ''2e-3'']"
  by (simp add: stage_defs char_defs)

subsection \<open>Every sign of a line\<close>

text \<open>
  Each iteration of the main loop reads one piece of the line and appends its token,
  so that an accepted line is a sequence of pieces and its tokens are theirs. What
  \<open>strings.TrimSpace\<close> removes at both ends holds no sign.
\<close>

lemma ident_no_sign: "isIdent c \<or> isIdentStart c \<Longrightarrow> c \<noteq> CHR ''+'' \<and> c \<noteq> CHR ''-''"
  by (auto simp: char_defs)

lemma prevOk_snoc:
  "((p' = tOp \<or> p' = tLParen) \<longleftrightarrow> (tokType t = tOp \<or> tokType t = tLParen)) \<Longrightarrow> prevOk (toks @ [t]) p'"
  by (simp add: prevOk_def)

lemma tokenizeFrom_piece:
  assumes "tokenizeFrom L (ch # rest) toks p = Inr res" and "prevOk toks p"
  shows "\<exists>pc rest' p'. pieceOk pc \<and> ch # rest = pieceText pc @ rest' \<and>
           length rest' \<le> length rest \<and>
           tokenizeFrom L rest' (piecesTokens toks [pc]) p' = Inr res \<and>
           prevOk (piecesTokens toks [pc]) p'"
proof (cases "isSpace ch")
  case True
  with assms show ?thesis
    by (intro exI[of _ "Blank ch"] exI[of _ rest] exI[of _ p]) simp
next
  case ns: False
  show ?thesis
  proof (cases "isDigit ch \<or> ch = CHR ''.''")
    case True
    let ?n = "scanNumber False rest"
    let ?w = "ch # take ?n rest"
    from assms ns True have "tokenizeFrom L (drop ?n rest) (toks @ [Token tNumber ?w]) tNumber = Inr res"
      by (simp add: Let_def)
    moreover have "numberShape ?w"
      using True numberTail_scan[of rest] by (simp add: numberShape_def isMantissaChar_def)
    ultimately show ?thesis
      by (intro exI[of _ "Numeral ?w"] exI[of _ "drop ?n rest"] exI[of _ tNumber])
         (simp add: prevOk_snoc)
  next
    case nd: False
    show ?thesis
    proof (cases "ch = CHR ''+'' \<or> ch = CHR ''-''")
      case True
      from assms(1) tokenizeFrom_sign[OF assms(2) True, of L rest]
      have "tokenizeFrom L rest (toks @ [signToken toks ch]) tOp = Inr res"
        by (simp add: signToken_def)
      with True show ?thesis
        by (intro exI[of _ "Sign ch"] exI[of _ rest] exI[of _ tOp])
           (simp add: prevOk_snoc signToken_def)
    next
      case nsg: False
      show ?thesis
      proof (cases "ch = CHR ''*'' \<or> ch = CHR ''/'' \<or> ch = CHR ''^''")
        case True
        from assms ns nd nsg True have "tokenizeFrom L rest (toks @ [Token tOp [ch]]) tOp = Inr res"
          by simp
        moreover have "pieceOk (Other [ch] (Token tOp [ch]))"
          using True nsg by (auto simp: isSignToken_def)
        ultimately show ?thesis
          by (intro exI[of _ "Other [ch] (Token tOp [ch])"] exI[of _ rest] exI[of _ tOp])
             (simp add: prevOk_snoc)
      next
        case nop: False
        show ?thesis
        proof (cases "ch = CHR ''('' \<or> ch = CHR '')'' \<or> ch = CHR '',''")
          case True
          let ?t = "if ch = CHR ''('' then Token tLParen ''('' else if ch = CHR '')'' then Token tRParen '')'' else Token tComma '',''"
          let ?p = "if ch = CHR ''('' then tLParen else if ch = CHR '')'' then tRParen else tComma"
          from assms ns nd nsg nop True have "tokenizeFrom L rest (toks @ [?t]) ?p = Inr res"
            by (auto split: if_splits)
          moreover have "pieceOk (Other [ch] ?t)"
            using nsg by (auto simp: isSignToken_def)
          ultimately show ?thesis
            by (intro exI[of _ "Other [ch] ?t"] exI[of _ rest] exI[of _ ?p])
               (simp add: prevOk_snoc)
        next
          case npu: False
          let ?id = "ch # takeWhile isIdent rest"
          let ?low = "toLower ?id"
          let ?t = "if functionsMap L ?low \<noteq> None then Token tFunc ?low else Token tIdent ?low"
          from assms ns nd nsg nop npu
          have run: "tokenizeFrom L (dropWhile isIdent rest) (toks @ [?t]) tIdent = Inr res"
            and st: "isIdentStart ch"
            by (simp_all add: Let_def split: if_splits)
          have "\<forall>c\<in>set ?id. c \<noteq> CHR ''+'' \<and> c \<noteq> CHR ''-''"
            using st ident_no_sign by (auto dest!: set_takeWhileD)
          then have "pieceOk (Other ?id ?t)"
            by (auto simp: isSignToken_def)
          with run show ?thesis
            by (intro exI[of _ "Other ?id ?t"] exI[of _ "dropWhile isIdent rest"] exI[of _ tIdent])
               (simp add: prevOk_snoc length_dropWhile_le)
        qed
      qed
    qed
  qed
qed

lemma piecesTokens_append:
  "piecesTokens toks (ps @ qs) = piecesTokens (piecesTokens toks ps) qs"
  by (induction toks ps rule: piecesTokens.induct) auto

lemma tokenizeFrom_pieces:
  assumes "tokenizeFrom L s toks p = Inr res" and "prevOk toks p"
  shows "\<exists>ps. list_all pieceOk ps \<and> concat (map pieceText ps) = s \<and> piecesTokens toks ps = res"
  using assms
proof (induction "length s" arbitrary: s toks p rule: less_induct)
  case less
  show ?case
  proof (cases s)
    case Nil
    with less.prems show ?thesis by (intro exI[of _ "[]"]) simp
  next
    case (Cons ch rest)
    from tokenizeFrom_piece[OF less.prems(1)[unfolded Cons] less.prems(2)]
    obtain pc rest' p' where ok: "pieceOk pc" and tx: "ch # rest = pieceText pc @ rest'"
      and len: "length rest' \<le> length rest"
      and run: "tokenizeFrom L rest' (piecesTokens toks [pc]) p' = Inr res"
      and pv: "prevOk (piecesTokens toks [pc]) p'"
      by blast
    from len Cons have "length rest' < length s" by simp
    from less.hyps[OF this run pv] obtain ps where
      ps: "list_all pieceOk ps" "concat (map pieceText ps) = rest'"
        "piecesTokens (piecesTokens toks [pc]) ps = res"
      by blast
    have "piecesTokens toks (pc # ps) = res"
      using ps(3) piecesTokens_append[of toks "[pc]" ps] by simp
    with ok ps(1,2) tx Cons show ?thesis
      by (intro exI[of _ "pc # ps"]) simp
  qed
qed

lemma sign_code: "code CHR ''+'' = 43" "code CHR ''-'' = 45"
  by (simp_all add: code_def)

lemma trimLeft_split: "\<exists>w. s = w @ trimLeft s \<and> noSign w"
proof (induction s rule: trimLeft.induct)
  case (1 a b c s)
  show ?case
  proof (cases "asciiSpace a")
    case True
    with 1(1) obtain w where w: "b # c # s = w @ trimLeft (b # c # s)" "noSign w" by blast
    from True have "a \<noteq> CHR ''+'' \<and> a \<noteq> CHR ''-''" using sign_code by (auto simp: asciiSpace_def)
    with w True show ?thesis
      by (intro exI[of _ "a # w"]) (auto simp: noSign_def)
  next
    case na: False
    show ?thesis
    proof (cases "space2 a b")
      case True
      with 1(2) na obtain w where w: "c # s = w @ trimLeft (c # s)" "noSign w" by blast
      from True have "a \<noteq> CHR ''+'' \<and> a \<noteq> CHR ''-'' \<and> b \<noteq> CHR ''+'' \<and> b \<noteq> CHR ''-''"
        using sign_code by (auto simp: space2_def)
      with w True na show ?thesis
        by (intro exI[of _ "a # b # w"]) (auto simp: noSign_def)
    next
      case n2: False
      show ?thesis
      proof (cases "space3 a b c")
        case True
        with 1(3) na n2 obtain w where w: "s = w @ trimLeft s" "noSign w" by blast
        from True have "a \<noteq> CHR ''+'' \<and> a \<noteq> CHR ''-'' \<and> b \<noteq> CHR ''+'' \<and> b \<noteq> CHR ''-''
            \<and> c \<noteq> CHR ''+'' \<and> c \<noteq> CHR ''-''"
          using sign_code by (auto simp: space3_def)
        with w True na n2 show ?thesis
          by (intro exI[of _ "a # b # c # w"]) (auto simp: noSign_def)
      next
        case False
        with na n2 show ?thesis by (intro exI[of _ "[]"]) (simp add: noSign_def)
      qed
    qed
  qed
next
  case (2 a b)
  show ?case
  proof (cases "asciiSpace a")
    case True
    with 2 obtain w where w: "[b] = w @ trimLeft [b]" "noSign w" by blast
    from True have "a \<noteq> CHR ''+'' \<and> a \<noteq> CHR ''-''" using sign_code by (auto simp: asciiSpace_def)
    with w True show ?thesis
      by (intro exI[of _ "a # w"]) (auto simp: noSign_def)
  next
    case na: False
    show ?thesis
    proof (cases "space2 a b")
      case True
      then have "a \<noteq> CHR ''+'' \<and> a \<noteq> CHR ''-'' \<and> b \<noteq> CHR ''+'' \<and> b \<noteq> CHR ''-''"
        using sign_code by (auto simp: space2_def)
      with True na show ?thesis
        by (intro exI[of _ "[a, b]"]) (auto simp: noSign_def)
    next
      case False
      with na show ?thesis by (intro exI[of _ "[]"]) (simp add: noSign_def)
    qed
  qed
next
  case (3 a)
  show ?case
  proof (cases "asciiSpace a")
    case True
    then have "a \<noteq> CHR ''+'' \<and> a \<noteq> CHR ''-''" using sign_code by (auto simp: asciiSpace_def)
    with True show ?thesis by (intro exI[of _ "[a]"]) (auto simp: noSign_def)
  next
    case False
    then show ?thesis by (intro exI[of _ "[]"]) (simp add: noSign_def)
  qed
next
  case 4
  show ?case by (simp add: noSign_def)
qed

lemma trimRightRev_split: "\<exists>w. s = w @ trimRightRev s \<and> noSign w"
proof (induction s rule: trimRightRev.induct)
  case (1 c b a s)
  show ?case
  proof (cases "asciiSpace c")
    case True
    with 1(1) obtain w where w: "b # a # s = w @ trimRightRev (b # a # s)" "noSign w" by blast
    from True have "c \<noteq> CHR ''+'' \<and> c \<noteq> CHR ''-''" using sign_code by (auto simp: asciiSpace_def)
    with w True show ?thesis
      by (intro exI[of _ "c # w"]) (auto simp: noSign_def)
  next
    case na: False
    show ?thesis
    proof (cases "space2 b c")
      case True
      with 1(2) na obtain w where w: "a # s = w @ trimRightRev (a # s)" "noSign w" by blast
      from True have "c \<noteq> CHR ''+'' \<and> c \<noteq> CHR ''-'' \<and> b \<noteq> CHR ''+'' \<and> b \<noteq> CHR ''-''"
        using sign_code by (auto simp: space2_def)
      with w True na show ?thesis
        by (intro exI[of _ "c # b # w"]) (auto simp: noSign_def)
    next
      case n2: False
      show ?thesis
      proof (cases "space3 a b c")
        case True
        with 1(3) na n2 obtain w where w: "s = w @ trimRightRev s" "noSign w" by blast
        from True have "a \<noteq> CHR ''+'' \<and> a \<noteq> CHR ''-'' \<and> b \<noteq> CHR ''+'' \<and> b \<noteq> CHR ''-''
            \<and> c \<noteq> CHR ''+'' \<and> c \<noteq> CHR ''-''"
          using sign_code by (auto simp: space3_def)
        with w True na n2 show ?thesis
          by (intro exI[of _ "c # b # a # w"]) (auto simp: noSign_def)
      next
        case False
        with na n2 show ?thesis by (intro exI[of _ "[]"]) (simp add: noSign_def)
      qed
    qed
  qed
next
  case (2 c b)
  show ?case
  proof (cases "asciiSpace c")
    case True
    with 2 obtain w where w: "[b] = w @ trimRightRev [b]" "noSign w" by blast
    from True have "c \<noteq> CHR ''+'' \<and> c \<noteq> CHR ''-''" using sign_code by (auto simp: asciiSpace_def)
    with w True show ?thesis
      by (intro exI[of _ "c # w"]) (auto simp: noSign_def)
  next
    case na: False
    show ?thesis
    proof (cases "space2 b c")
      case True
      then have "c \<noteq> CHR ''+'' \<and> c \<noteq> CHR ''-'' \<and> b \<noteq> CHR ''+'' \<and> b \<noteq> CHR ''-''"
        using sign_code by (auto simp: space2_def)
      with True na show ?thesis
        by (intro exI[of _ "[c, b]"]) (auto simp: noSign_def)
    next
      case False
      with na show ?thesis by (intro exI[of _ "[]"]) (simp add: noSign_def)
    qed
  qed
next
  case (3 c)
  show ?case
  proof (cases "asciiSpace c")
    case True
    then have "c \<noteq> CHR ''+'' \<and> c \<noteq> CHR ''-''" using sign_code by (auto simp: asciiSpace_def)
    with True show ?thesis by (intro exI[of _ "[c]"]) (auto simp: noSign_def)
  next
    case False
    then show ?thesis by (intro exI[of _ "[]"]) (simp add: noSign_def)
  qed
next
  case 4
  show ?case by (simp add: noSign_def)
qed

lemma trimSpace_split: "\<exists>lead trail. s = lead @ trimSpace s @ trail \<and> noSign lead \<and> noSign trail"
proof -
  from trimLeft_split[of s] obtain lead where l: "s = lead @ trimLeft s" "noSign lead" by blast
  from trimRightRev_split[of "rev (trimLeft s)"] obtain w where
    w: "rev (trimLeft s) = w @ trimRightRev (rev (trimLeft s))" "noSign w" by blast
  from w(1) have "trimLeft s = rev (trimRightRev (rev (trimLeft s))) @ rev w"
    by (metis rev_append rev_rev_ident)
  then have "trimLeft s = trimSpace s @ rev w" by (simp add: trimSpace_def)
  with l have "s = lead @ trimSpace s @ rev w" by simp
  moreover have "noSign (rev w)" using w(2) by (simp add: noSign_def)
  ultimately show ?thesis using l(2) by blast
qed

lemma example_pieces:
  "list_all pieceOk
     [Other ''max'' (Token tFunc ''max''), Other ''('' (Token tLParen ''(''), Numeral ''1'',
      Other '','' (Token tComma '',''), Blank CHR '' '', Sign CHR ''-'', Numeral ''2e-1'',
      Other '')'' (Token tRParen '')''), Sign CHR ''-'', Other ''('' (Token tLParen ''(''),
      Sign CHR ''-'', Other ''ans'' (Token tIdent ''ans''), Sign CHR ''+'', Numeral ''3'',
      Other '')'' (Token tRParen '')'')] \<and>
   concat (map pieceText
     [Other ''max'' (Token tFunc ''max''), Other ''('' (Token tLParen ''(''), Numeral ''1'',
      Other '','' (Token tComma '',''), Blank CHR '' '', Sign CHR ''-'', Numeral ''2e-1'',
      Other '')'' (Token tRParen '')''), Sign CHR ''-'', Other ''('' (Token tLParen ''(''),
      Sign CHR ''-'', Other ''ans'' (Token tIdent ''ans''), Sign CHR ''+'', Numeral ''3'',
      Other '')'' (Token tRParen '')'')]) = ''max(1, -2e-1)-(-ans+3)'' \<and>
   piecesTokens []
     [Other ''max'' (Token tFunc ''max''), Other ''('' (Token tLParen ''(''), Numeral ''1'',
      Other '','' (Token tComma '',''), Blank CHR '' '', Sign CHR ''-'', Numeral ''2e-1'',
      Other '')'' (Token tRParen '')''), Sign CHR ''-'', Other ''('' (Token tLParen ''(''),
      Sign CHR ''-'', Other ''ans'' (Token tIdent ''ans''), Sign CHR ''+'', Numeral ''3'',
      Other '')'' (Token tRParen '')'')] =
     [Token tFunc ''max'', Token tLParen ''('', Token tNumber ''1'', Token tComma '','',
      Token tOp ''-'', Token tNumber ''2e-1'', Token tRParen '')'', Token tOp ''-'',
      Token tLParen ''('', Token tOp ''u-'', Token tIdent ''ans'', Token tOp ''+'',
      Token tNumber ''3'', Token tRParen '')'']"
  by (simp add: char_defs numberShape_def isMantissaChar_def afterExponentMark_def
      isSignToken_def signToken_def)

text \<open>
  Claim C2, as the code has it: an accepted line is, between the white space removed
  at its ends, a sequence of blanks, texts of number tokens, sign characters and other
  texts that hold no sign, and its tokens are those of the pieces in order. So every
  \<open>+\<close> or \<open>-\<close> of the line either stands in the text of a number token, after its
  exponent mark, or gives exactly one operator token: the unary one when it is the first
  token or the token before it is an operator or a left parenthesis, the binary one
  otherwise, among others after a right parenthesis, a number, an identifier and a
  comma. The sign tokens of the result are unary exactly in that context.
\<close>

theorem signs_of_a_line:
  assumes "tokenize L input = Inr toks"
  shows "(\<exists>lead ps trail. input = lead @ concat (map pieceText ps) @ trail \<and>
            noSign lead \<and> noSign trail \<and> list_all pieceOk ps \<and> piecesTokens [] ps = toks) \<and>
         (\<forall>k<length toks. isSignToken (toks ! k) \<longrightarrow>
            (isUnarySign (toks ! k) \<longleftrightarrow> unaryContext toks k) \<and>
            (isBinarySign (toks ! k) \<longleftrightarrow> \<not> unaryContext toks k))"
proof
  have "prevOk [] tOp" by (simp add: prevOk_def)
  from tokenizeFrom_pieces[OF assms[unfolded tokenize_def] this] obtain ps where
    ps: "list_all pieceOk ps" "concat (map pieceText ps) = trimSpace input" "piecesTokens [] ps = toks"
    by blast
  from trimSpace_split[of input] obtain lead trail where
    "input = lead @ trimSpace input @ trail" "noSign lead" "noSign trail" by blast
  with ps show "\<exists>lead ps trail. input = lead @ concat (map pieceText ps) @ trail \<and>
            noSign lead \<and> noSign trail \<and> list_all pieceOk ps \<and> piecesTokens [] ps = toks"
    by (intro exI[of _ lead] exI[of _ ps] exI[of _ trail]) simp
next
  show "\<forall>k<length toks. isSignToken (toks ! k) \<longrightarrow>
            (isUnarySign (toks ! k) \<longleftrightarrow> unaryContext toks k) \<and>
            (isBinarySign (toks ! k) \<longleftrightarrow> \<not> unaryContext toks k)"
  proof (intro allI impI)
    fix k assume k: "k < length toks" and s: "isSignToken (toks ! k)"
    from tokenize_signsOk[OF assms] k s
    have u: "isUnarySign (toks ! k) \<longleftrightarrow> unaryContext toks k"
      by (simp add: signsOk_def)
    moreover have "isBinarySign (toks ! k) \<longleftrightarrow> \<not> isUnarySign (toks ! k)"
      using s by (auto simp: isSignToken_def isBinarySign_def isUnarySign_def)
    ultimately show "(isUnarySign (toks ! k) \<longleftrightarrow> unaryContext toks k) \<and>
            (isBinarySign (toks ! k) \<longleftrightarrow> \<not> unaryContext toks k)" by simp
  qed
qed

theorem signs_of_a_line_witness:
  "tokenize exactLib ''max(1, -2e-1)-(-ans+3)'' =
     Inr [Token tFunc ''max'', Token tLParen ''('', Token tNumber ''1'', Token tComma '','',
          Token tOp ''-'', Token tNumber ''2e-1'', Token tRParen '')'', Token tOp ''-'',
          Token tLParen ''('', Token tOp ''u-'', Token tIdent ''ans'', Token tOp ''+'',
          Token tNumber ''3'', Token tRParen '')''] \<and>
   (\<exists>lead ps trail. ''max(1, -2e-1)-(-ans+3)'' = lead @ concat (map pieceText ps) @ trail \<and>
      noSign lead \<and> noSign trail \<and> list_all pieceOk ps \<and>
      piecesTokens [] ps =
        [Token tFunc ''max'', Token tLParen ''('', Token tNumber ''1'', Token tComma '','',
         Token tOp ''-'', Token tNumber ''2e-1'', Token tRParen '')'', Token tOp ''-'',
         Token tLParen ''('', Token tOp ''u-'', Token tIdent ''ans'', Token tOp ''+'',
         Token tNumber ''3'', Token tRParen '')'']) \<and>
   isBinarySign (Token tOp ''-'') \<and> isUnarySign (Token tOp ''u-'') \<and>
   isBinarySign (Token tOp ''+'')"
proof -
  let ?toks = "[Token tFunc ''max'', Token tLParen ''('', Token tNumber ''1'', Token tComma '','',
          Token tOp ''-'', Token tNumber ''2e-1'', Token tRParen '')'', Token tOp ''-'',
          Token tLParen ''('', Token tOp ''u-'', Token tIdent ''ans'', Token tOp ''+'',
          Token tNumber ''3'', Token tRParen '')'']"
  have t: "tokenize exactLib ''max(1, -2e-1)-(-ans+3)'' = Inr ?toks"
    by (simp add: stage_defs char_defs table_defs)
  note th = signs_of_a_line [OF t]
  have c: "\<not> unaryContext ?toks 4" "\<not> unaryContext ?toks 7" "unaryContext ?toks 9"
    "\<not> unaryContext ?toks 11"
    by (simp_all add: unaryContext_def)
  from th have d: "\<exists>lead ps trail. ''max(1, -2e-1)-(-ans+3)'' = lead @ concat (map pieceText ps) @ trail \<and>
      noSign lead \<and> noSign trail \<and> list_all pieceOk ps \<and> piecesTokens [] ps = ?toks"
    by (rule conjunct1)
  from th have "\<forall>k<length ?toks. isSignToken (?toks ! k) \<longrightarrow>
            (isUnarySign (?toks ! k) \<longleftrightarrow> unaryContext ?toks k) \<and>
            (isBinarySign (?toks ! k) \<longleftrightarrow> \<not> unaryContext ?toks k)"
    by (rule conjunct2)
  from this[rule_format, of 4] this[rule_format, of 9] this[rule_format, of 11] c
  have "isBinarySign (Token tOp ''-'') \<and> isUnarySign (Token tOp ''u-'') \<and> isBinarySign (Token tOp ''+'')"
    by (simp add: isSignToken_def)
  with t d show ?thesis by blast
qed

text \<open>
  The claim as stated fails at \<open>1e+(2)\<close>: the numeral case of the lexer takes the sign
  after the exponent mark into the number token without looking for a digit, and the
  \<open>+\<close> of the line is classified neither as a unary nor as a binary operator.
\<close>

theorem exponent_sign_is_swallowed:
  "tokenize exactLib ''1e+(2)'' =
     Inr [Token tNumber ''1e+'', Token tLParen ''('', Token tNumber ''2'', Token tRParen '')''] \<and>
   filter isSignToken
     [Token tNumber ''1e+'', Token tLParen ''('', Token tNumber ''2'', Token tRParen '')''] = [] \<and>
   \<not> isFloatLiteral ''1e+''"
  by (simp add: stage_defs char_defs table_defs isSignToken_def literal_defs)

section \<open>Number tokens\<close>

lemma emits_shape:
  assumes "\<forall>x\<in>set toks. tokType x = tNumber \<longrightarrow> numberShape (val x)" and "emits toks p t p'"
  shows "\<forall>x\<in>set (toks @ [t]). tokType x = tNumber \<longrightarrow> numberShape (val x)"
proof -
  have "tokType t = tNumber \<longrightarrow> numberShape (val t)"
    using assms(2) unfolding emits_def by (elim disjE exE conjE) simp_all
  with assms(1) show ?thesis by simp
qed

lemma tokenize_number_shapes:
  assumes "tokenize L input = Inr toks"
  shows "\<forall>x\<in>set toks. tokType x = tNumber \<longrightarrow> numberShape (val x)"
proof -
  let ?I = "\<lambda>(ts :: token list) (q :: tokenType). \<forall>x\<in>set ts. tokType x = tNumber \<longrightarrow> numberShape (val x)"
  have start: "?I [] tOp" by simp
  have "\<exists>p'. ?I toks p'"
    using assms[unfolded tokenize_def] start emits_shape
    by (rule tokenizeFrom_invariant[where I = ?I])
  then show ?thesis by blast
qed

text \<open>
  Claim C7, as the code has it: the payload of every number token of an accepted line
  starts with a digit or a decimal point, goes on with digits and decimal points, and
  may end with one exponent mark, an optional sign, and digits and decimal points. The
  numeral case of the lexer does not count the decimal points and does not ask for a
  digit, so such a payload need not be a floating-point literal.
\<close>

theorem number_token_shape:
  assumes "tokenize L input = Inr toks" and "t \<in> set toks" and "tokType t = tNumber"
  shows "numberShape (val t)"
  using tokenize_number_shapes[OF assms(1)] assms(2,3) by blast

theorem number_token_shape_witness:
  "tokenize exactLib ''1.2.3+4e-'' = Inr [Token tNumber ''1.2.3'', Token tOp ''+'', Token tNumber ''4e-''] \<and>
   numberShape ''1.2.3'' \<and> numberShape ''4e-''"
proof -
  have t: "tokenize exactLib ''1.2.3+4e-'' = Inr [Token tNumber ''1.2.3'', Token tOp ''+'', Token tNumber ''4e-'']"
    by (simp add: stage_defs char_defs table_defs)
  from number_token_shape [OF t, of "Token tNumber ''1.2.3''"]
    number_token_shape [OF t, of "Token tNumber ''4e-''"] t
  show ?thesis by simp
qed

text \<open>
  The claim as stated fails at \<open>1.2.3\<close>: the lexer accepts it as one number token, it is
  not a floating-point literal, and the evaluator ends in the branch that hands on the
  error of \<open>strconv.ParseFloat\<close>.
\<close>

theorem number_token_not_literal:
  "tokenize exactLib ''1.2.3'' = Inr [Token tNumber ''1.2.3''] \<and>
   \<not> isFloatLiteral ''1.2.3'' \<and>
   parseFloat exactLib ''1.2.3'' = None \<and>
   evalExpr exactLib ''1.2.3'' (Fin 0) = Inl (ParseFloatError ''1.2.3'')"
  by (simp add: stage_defs char_defs table_defs literal_defs exact_defs)

section \<open>Expressions of literals, prefix signs and the five binary operators\<close>

subsection \<open>The evaluator on a postfix form\<close>

lemma evalStep_binop:
  "evalStep L a (Token tOp [opSymbol b]) (y # x # st) =
     (if b = Div \<and> feq L y (fzero L) then Inl DivisionByZero else Inr (applyOp L b x y # st))"
  by (cases b) (simp_all add: evalStep_def table_defs)

lemma evalStep_sign:
  "evalStep L a (Token tOp (signName s)) (x # st) = Inr (applySign L s x # st)"
  by (cases s) (simp_all add: evalStep_def table_defs)

lemma evalStep_number:
  "evalStep L a (Token tNumber n) st =
     (case parseFloat L n of None \<Rightarrow> Inl (ParseFloatError n) | Some v \<Rightarrow> Inr (v # st))"
  by (simp add: evalStep_def split: option.splits)

lemma evalLoop_postfix:
  "evalLoop L a (postfix e) st =
     (case evalTree L e of Inl err \<Rightarrow> Inl err | Inr v \<Rightarrow> Inr (v # st))"
proof (induction e arbitrary: st)
  case (Lit w n)
  show ?case by (simp add: evalStep_number split: option.splits)
next
  case (Signed s w e)
  show ?case
    by (simp add: evalLoop_append Signed.IH evalStep_sign split: sum.splits)
next
  case (Bin b w l r)
  show ?case
    by (simp add: evalLoop_append Bin.IH evalStep_binop split: sum.splits)
qed

lemma evalRPN_postfix: "evalRPN L (postfix e) a = evalTree L e"
  by (auto simp: evalRPN_def evalLoop_postfix split: sum.splits)

subsection \<open>The parser on the tokens of a reading\<close>

lemma prec_binop: "prec (ops L [opSymbol b]) = level b"
  by (cases b) (simp_all add: table_defs)

lemma rightAssoc_binop: "rightAssoc (ops L [opSymbol b]) = groupsRight b"
  by (cases b) (simp_all add: table_defs)

lemma prec_sign: "prec (ops L (signName s)) = 4" "rightAssoc (ops L (signName s))"
  by (cases s; simp add: table_defs)+

lemma prec_le_4: "prec (ops L k) \<le> 4"
  by (simp add: table_defs)

lemma level_bounds: "1 \<le> level b" "level b \<le> 3" "level b = 3 \<longleftrightarrow> groupsRight b"
  by (cases b; simp)+

lemma rootLevel_bounds: "1 \<le> rootLevel e" "rootLevel e \<le> 5"
proof -
  show "1 \<le> rootLevel e" using level_bounds(1) by (cases e) simp_all
  show "rootLevel e \<le> 5"
  proof (cases e)
    case (Bin b w l r)
    then show ?thesis using level_bounds(2)[of b] by simp
  qed simp_all
qed

lemma syLoop_append:
  "syLoop L (xs @ ys) os =
     (case syLoop L xs os of Inl e \<Rightarrow> Inl e | Inr os' \<Rightarrow> syLoop L ys os')"
  by (induction xs arbitrary: os) (auto split: sum.splits)

lemma popOps_sign: "popOps L (signName s) out S = (out, S)"
proof (cases S)
  case Nil
  then show ?thesis by simp
next
  case (Cons t S')
  with prec_le_4[of L "val t"] show ?thesis
    by (simp add: prec_sign)
qed

lemma popOps_rest:
  assumes "staysBelow L S (level b)"
  shows "popOps L [opSymbol b] out S = (out, S)"
proof (cases S)
  case Nil
  then show ?thesis by simp
next
  case (Cons t S')
  with assms level_bounds[of b] show ?thesis
    by (auto simp: staysBelow_def prec_binop rightAssoc_binop)
qed

lemma popOps_pending:
  assumes "pendingOps L pend q"
    and "level b < q \<or> (level b = q \<and> \<not> groupsRight b)"
    and "staysBelow L S (level b)"
  shows "popOps L [opSymbol b] out (pend @ S) = (out @ pend, S)"
  using assms(1)
proof (induction pend arbitrary: out)
  case Nil
  show ?case using popOps_rest[OF assms(3)] by simp
next
  case (Cons t pend)
  from Cons.prems have t: "tokType t = tOp" and c: "q \<le> prec (ops L (val t))"
    by (auto simp: pendingOps_def)
  from Cons.prems have "pendingOps L pend q" by (simp add: pendingOps_def)
  from Cons.IH[OF this] have ih: "popOps L [opSymbol b] (out @ [t]) (pend @ S) = ((out @ [t]) @ pend, S)" .
  from assms(2) c have "prec (ops L (val t)) > level b \<or> (prec (ops L (val t)) = level b \<and> \<not> groupsRight b)" by auto
  then show ?case using ih t
    by (simp add: prec_binop rightAssoc_binop)
qed

lemma staysBelow_mono: "staysBelow L S q \<Longrightarrow> q \<le> q' \<Longrightarrow> staysBelow L S q'"
  by (auto simp: staysBelow_def)

lemma syStep_number: "syStep L (Token tNumber n) (out, S) = Inr (out @ [Token tNumber n], S)"
  by (simp add: syStep_def)

lemma syStep_op:
  "syStep L (Token tOp v) (out, S) =
     (case popOps L v out S of (out', S') \<Rightarrow> Inr (out', Token tOp v # S'))"
  by (simp add: syStep_def)

lemma syLoop_expr:
  assumes "tableReading e" and "staysBelow L S (rootLevel e)"
  shows "\<exists>pre pend. syLoop L (exprTokens e) (out, S) = Inr (out @ pre, pend @ S) \<and>
           pre @ pend = postfix e \<and> pendingOps L pend (rootLevel e)"
  using assms
proof (induction e arbitrary: out S)
  case (Lit w n)
  show ?case
    by (rule exI[of _ "[Token tNumber n]"], rule exI[of _ "[]"])
       (simp add: syStep_number pendingOps_def)
next
  case (Signed s w e)
  let ?t = "Token tOp (signName s)"
  from Signed.prems(1) have te: "tableReading e" and le: "4 \<le> rootLevel e" by simp_all
  have step: "syStep L ?t (out, S) = Inr (out, ?t # S)"
    by (simp add: syStep_op popOps_sign)
  have "staysBelow L (?t # S) (rootLevel e)"
    using le rootLevel_bounds(2)[of e] by (auto simp: staysBelow_def prec_sign)
  from Signed.IH[OF te this, of out] obtain pre pend where
    e1: "syLoop L (exprTokens e) (out, ?t # S) = Inr (out @ pre, pend @ ?t # S)"
    and e2: "pre @ pend = postfix e" and e3: "pendingOps L pend (rootLevel e)"
    by blast
  have pend: "pendingOps L (pend @ [?t]) 4"
    using e3 le by (fastforce simp: pendingOps_def prec_sign)
  have run: "syLoop L (exprTokens (Signed s w e)) (out, S) = Inr (out @ pre, (pend @ [?t]) @ S)"
    using step e1 by simp
  have post: "pre @ (pend @ [?t]) = postfix (Signed s w e)"
    using e2 by (metis append.assoc postfix.simps(2))
  from run post pend show ?case
    by (intro exI[of _ pre] exI[of _ "pend @ [?t]"]) simp
next
  case (Bin b w l r)
  from Bin.prems(1) have sl: "tableReading l" and sr: "tableReading r"
    and lv: "if groupsRight b then level b < rootLevel l \<and> level b \<le> rootLevel r
             else level b \<le> rootLevel l \<and> level b < rootLevel r"
    by simp_all
  from Bin.prems(2) have sb: "staysBelow L S (level b)" by simp
  from lv have "level b \<le> rootLevel l" by (simp split: if_splits)
  with sb have "staysBelow L S (rootLevel l)" by (rule staysBelow_mono)
  from Bin.IH(1)[OF sl this, of out] obtain pre1 pend1 where
    l1: "syLoop L (exprTokens l) (out, S) = Inr (out @ pre1, pend1 @ S)"
    and l2: "pre1 @ pend1 = postfix l" and l3: "pendingOps L pend1 (rootLevel l)"
    by blast
  from lv have "level b < rootLevel l \<or> (level b = rootLevel l \<and> \<not> groupsRight b)"
    by (auto split: if_splits)
  from popOps_pending[OF l3 this sb]
  have pop: "popOps L [opSymbol b] (out @ pre1) (pend1 @ S) = ((out @ pre1) @ pend1, S)" .
  have step: "syStep L (Token tOp [opSymbol b]) (out @ pre1, pend1 @ S)
                = Inr (out @ postfix l, Token tOp [opSymbol b] # S)"
    using pop l2 by (simp add: syStep_op)
  have "staysBelow L (Token tOp [opSymbol b] # S) (rootLevel r)"
    using lv level_bounds(3)[of b] by (auto simp: staysBelow_def prec_binop split: if_splits)
  from Bin.IH(2)[OF sr this, of "out @ postfix l"] obtain pre2 pend2 where
    r1: "syLoop L (exprTokens r) (out @ postfix l, Token tOp [opSymbol b] # S)
           = Inr ((out @ postfix l) @ pre2, pend2 @ Token tOp [opSymbol b] # S)"
    and r2: "pre2 @ pend2 = postfix r" and r3: "pendingOps L pend2 (rootLevel r)"
    by blast
  from lv have rb: "level b \<le> rootLevel r" by (simp split: if_splits)
  have pend: "pendingOps L (pend2 @ [Token tOp [opSymbol b]]) (level b)"
    using r3 rb by (fastforce simp: pendingOps_def prec_binop)
  have run: "syLoop L (exprTokens (Bin b w l r)) (out, S)
          = Inr (out @ (postfix l @ pre2), (pend2 @ [Token tOp [opSymbol b]]) @ S)"
    using l1 step r1 by (simp add: syLoop_append)
  have post: "(postfix l @ pre2) @ (pend2 @ [Token tOp [opSymbol b]]) = postfix (Bin b w l r)"
    using r2 by (metis append.assoc postfix.simps(3))
  from run post pend show ?case
    by (intro exI[of _ "postfix l @ pre2"] exI[of _ "pend2 @ [Token tOp [opSymbol b]]"]) simp
qed

lemma popAll_ops:
  "\<forall>t\<in>set st. tokType t \<noteq> tLParen \<Longrightarrow> popAll out st = Inr (out @ st)"
  by (induction st arbitrary: out) auto

lemma checkFuncs_none:
  "\<forall>t\<in>set xs. tokType t \<noteq> tFunc \<Longrightarrow> checkFuncs xs = None"
  by (induction xs) auto

lemma postfix_types: "t \<in> set (postfix e) \<Longrightarrow> tokType t = tNumber \<or> tokType t = tOp"
  by (induction e) auto

lemma shuntingYard_expr:
  assumes "tableReading e"
  shows "shuntingYard L (exprTokens e) = Inr (postfix e)"
proof -
  have "staysBelow L [] (rootLevel e)" by (simp add: staysBelow_def)
  from syLoop_expr[OF assms this, of "[]"] obtain pre pend where
    1: "syLoop L (exprTokens e) ([], []) = Inr (pre, pend)"
    and 2: "pre @ pend = postfix e" and 3: "pendingOps L pend (rootLevel e)"
    by auto
  from 3 have "\<forall>t\<in>set pend. tokType t \<noteq> tLParen" by (auto simp: pendingOps_def)
  then have 4: "popAll pre pend = Inr (postfix e)" using 2 by (simp add: popAll_ops)
  have 5: "checkFuncs (postfix e) = None"
    by (rule checkFuncs_none) (auto dest: postfix_types)
  show ?thesis by (simp add: shuntingYard_def 1 4 5)
qed

subsection \<open>The lexer on the text of a reading\<close>

lemma digit_facts:
  "isDigit c \<Longrightarrow> c \<noteq> CHR ''.'' \<and> c \<noteq> CHR ''e'' \<and> c \<noteq> CHR ''E'' \<and> c \<noteq> CHR ''+'' \<and> c \<noteq> CHR ''-'' \<and> \<not> isSpace c"
  by (auto simp: char_defs)

lemma scan_digits:
  "list_all isDigit ds \<Longrightarrow> scanNumber h (ds @ r) = length ds + scanNumber h r"
  by (induction ds) auto

lemma scan_True_stop:
  "r = [] \<or> (\<not> isDigit (hd r) \<and> hd r \<noteq> CHR ''.'') \<Longrightarrow> scanNumber True r = 0"
  by (cases r) auto

lemma scan_False_stop: "stopsNumber r \<Longrightarrow> scanNumber False r = 0"
  by (cases r) (auto simp: stopsNumber_def)

lemma scan_exponent:
  assumes "isExponent ex" and "stopsNumber rest"
  shows "scanNumber False (ex @ rest) = length ex"
proof -
  from assms(1) obtain m sg ds where ex: "ex = m # sg @ ds"
    and m: "m = CHR ''e'' \<or> m = CHR ''E''"
    and sg: "sg = [] \<or> sg = ''+'' \<or> sg = ''-''"
    and ds: "ds \<noteq> []" "list_all isDigit ds"
    by (auto simp: isExponent_def)
  from m have nm: "\<not> isDigit m" "m \<noteq> CHR ''.''" by (auto simp: char_defs)
  from assms(2) have "rest = [] \<or> (\<not> isDigit (hd rest) \<and> hd rest \<noteq> CHR ''.'')"
    by (auto simp: stopsNumber_def)
  then have t: "scanNumber True (ds @ rest) = length ds"
    using ds(2) by (simp add: scan_digits scan_True_stop)
  from ds obtain d ds' where d: "ds = d # ds'" "isDigit d" by (cases ds) auto
  from sg show ?thesis
  proof (elim disjE)
    assume "sg = []"
    with ex m nm t d digit_facts[OF d(2)] show ?thesis by auto
  next
    assume "sg = ''+''"
    with ex m nm t show ?thesis by auto
  next
    assume "sg = ''-''"
    with ex m nm t show ?thesis by auto
  qed
qed

lemma literal_decomp:
  assumes "isFloatLiteral n"
  shows "\<exists>ip dot fp ex. n = ip @ dot @ fp @ ex \<and> list_all isDigit ip \<and> list_all isDigit fp \<and>
           (dot = [] \<or> dot = ''.'') \<and> ip @ fp \<noteq> [] \<and> (ex = [] \<or> isExponent ex)"
proof -
  let ?ip = "takeWhile isDigit n" and ?r1 = "dropWhile isDigit n"
  have n: "n = ?ip @ ?r1" by simp
  have ip: "list_all isDigit ?ip" by (simp add: list_all_iff) (meson set_takeWhileD)
  have expo: "\<And>r. exponentPart r \<noteq> None \<Longrightarrow> r = [] \<or> isExponent r"
  proof -
    fix r assume a: "exponentPart r \<noteq> None"
    show "r = [] \<or> isExponent r"
    proof (cases r)
      case Nil then show ?thesis by simp
    next
      case (Cons c r1)
      with a have c: "c = CHR ''e'' \<or> c = CHR ''E''"
        by (auto simp: exponentPart_def split: if_splits)
      let ?ds = "if r1 \<noteq> [] \<and> (hd r1 = CHR ''+'' \<or> hd r1 = CHR ''-'') then tl r1 else r1"
      from a Cons c have ds: "?ds \<noteq> []" "list_all isDigit ?ds"
        by (auto simp: exponentPart_def Let_def split: if_splits)
      show ?thesis
      proof (cases "r1 \<noteq> [] \<and> (hd r1 = CHR ''+'' \<or> hd r1 = CHR ''-'')")
        case True
        then obtain s where r1: "r1 = s # tl r1" "s = CHR ''+'' \<or> s = CHR ''-''"
          by (cases r1) auto
        with ds True have "isExponent (c # [s] @ tl r1)"
          unfolding isExponent_def using c by (intro exI[of _ c] exI[of _ "[s]"] exI[of _ "tl r1"]) auto
        with Cons r1 show ?thesis by simp
      next
        case False
        with ds have "isExponent (c # [] @ r1)"
          unfolding isExponent_def using c by (intro exI[of _ c] exI[of _ "[]"] exI[of _ r1]) auto
        with Cons show ?thesis by simp
      qed
    qed
  qed
  show ?thesis
  proof (cases ?r1)
    case Nil
    with assms have "?ip \<noteq> []" by (simp add: isFloatLiteral_def literalParts_def)
    with n Nil ip show ?thesis
      by (intro exI[of _ ?ip] exI[of _ "[]"]) (simp del: takeWhile_dropWhile_id)
  next
    case (Cons c r)
    show ?thesis
    proof (cases "c = CHR ''.''")
      case True
      let ?fp = "takeWhile isDigit r" and ?r2 = "dropWhile isDigit r"
      have fp: "list_all isDigit ?fp" by (simp add: list_all_iff) (meson set_takeWhileD)
      from assms Cons True have ne: "?ip @ ?fp \<noteq> []" and e: "exponentPart ?r2 \<noteq> None"
        by (simp_all add: isFloatLiteral_def literalParts_def)
      have "n = ?ip @ ''.'' @ ?fp @ ?r2" using n Cons True by (metis append_Cons append_Nil takeWhile_dropWhile_id)
      with ip fp ne expo[OF e] show ?thesis
        by (intro exI[of _ ?ip] exI[of _ "''.''"] exI[of _ ?fp] exI[of _ ?r2]) simp
    next
      case False
      from assms Cons False have ne: "?ip \<noteq> []" and e: "exponentPart ?r1 \<noteq> None"
        by (simp_all add: isFloatLiteral_def literalParts_def)
      have "n = ?ip @ [] @ [] @ ?r1" by simp
      with ip ne expo[OF e] show ?thesis
        by (intro exI[of _ ?ip] exI[of _ "[]"] exI[of _ "[]"] exI[of _ ?r1]) simp
    qed
  qed
qed

lemma scan_literal:
  assumes "isFloatLiteral n" and "stopsNumber rest"
  shows "scanNumber False (n @ rest) = length n"
proof -
  from literal_decomp[OF assms(1)] obtain ip dot fp ex where
    n: "n = ip @ dot @ fp @ ex" and ip: "list_all isDigit ip" and fp: "list_all isDigit fp"
    and dot: "dot = [] \<or> dot = ''.''" and ex: "ex = [] \<or> isExponent ex"
    by blast
  have e: "scanNumber False (ex @ rest) = length ex"
    using ex assms(2) by (auto simp: scan_exponent scan_False_stop)
  have f: "scanNumber False (fp @ ex @ rest) = length fp + length ex"
    using fp e by (simp add: scan_digits)
  have d: "scanNumber False (dot @ fp @ ex @ rest) = length dot + length fp + length ex"
    using dot f by auto
  have "scanNumber False (ip @ dot @ fp @ ex @ rest) = length ip + length dot + length fp + length ex"
    using ip d by (simp add: scan_digits)
  with n show ?thesis by simp
qed

lemma literal_ends:
  assumes "isFloatLiteral n"
  shows "n \<noteq> [] \<and> isMantissaChar (hd n) \<and> isMantissaChar (last n)"
proof -
  from literal_decomp[OF assms] obtain ip dot fp ex where
    n: "n = ip @ dot @ fp @ ex" and ip: "list_all isDigit ip" and fp: "list_all isDigit fp"
    and dot: "dot = [] \<or> dot = ''.''" and ne: "ip @ fp \<noteq> []" and ex: "ex = [] \<or> isExponent ex"
    by blast
  have all: "list_all isMantissaChar (ip @ dot @ fp)"
    using ip fp dot by (auto simp: list_all_iff isMantissaChar_def)
  have ne': "ip @ dot @ fp \<noteq> []" using ne by auto
  have h: "hd n = hd (ip @ dot @ fp)" using n ne' by (metis append.assoc hd_append2)
  have "isMantissaChar (hd (ip @ dot @ fp))"
    using all ne' by (metis hd_in_set list_all_iff)
  moreover have "isMantissaChar (last n)"
  proof (cases "ex = []")
    case True
    then have "last n = last (ip @ dot @ fp)" using n by simp
    then show ?thesis using all ne' by (metis last_in_set list_all_iff)
  next
    case False
    with ex obtain m sg ds where "ex = m # sg @ ds" "ds \<noteq> []" "list_all isDigit ds"
      by (auto simp: isExponent_def)
    then have "last n = last ds" "isDigit (last ds)"
      using n by (auto simp: list_all_iff)
    then show ?thesis by (simp add: isMantissaChar_def)
  qed
  ultimately show ?thesis using h ne' n by auto
qed

lemma tokenizeFrom_literal:
  assumes "isFloatLiteral n" and "stopsNumber rest"
  shows "tokenizeFrom L (n @ rest) toks p = tokenizeFrom L rest (toks @ [Token tNumber n]) tNumber"
proof -
  from literal_ends[OF assms(1)] obtain ch n' where n: "n = ch # n'" and ch: "isMantissaChar ch"
    by (cases n) auto
  from ch have ns: "\<not> isSpace ch" and d: "isDigit ch \<or> ch = CHR ''.''"
    by (auto simp: isMantissaChar_def char_defs)
  from scan_literal[OF assms] n d have s: "scanNumber False (n' @ rest) = length n'"
    by auto
  show ?thesis unfolding n using ns d s by (simp add: Let_def)
qed


lemma blank_facts:
  "isSpace c \<Longrightarrow> \<not> isDigit c \<and> c \<noteq> CHR ''.'' \<and> c \<noteq> CHR ''e'' \<and> c \<noteq> CHR ''E''"
  by (auto simp: char_defs)

lemma tokenizeFrom_blanks:
  "list_all isSpace w \<Longrightarrow> tokenizeFrom L (w @ s) toks p = tokenizeFrom L s toks p"
  by (induction w) simp_all

lemma stopsNumber_blanks:
  assumes "list_all isSpace w" and "stopsNumber s"
  shows "stopsNumber (w @ s)"
proof (cases w)
  case Nil
  with assms show ?thesis by simp
next
  case (Cons c w')
  with assms(1) blank_facts[of c] show ?thesis by (simp add: stopsNumber_def)
qed

lemma opSymbol_facts:
  "\<not> isSpace (opSymbol b)" "\<not> isDigit (opSymbol b)" "opSymbol b \<noteq> CHR ''.''"
  "opSymbol b \<noteq> CHR ''e''" "opSymbol b \<noteq> CHR ''E''"
  by (cases b; simp add: char_defs)+

lemma tokenizeFrom_binop:
  assumes "toks \<noteq> []"
  shows "tokenizeFrom L (opSymbol b # rest) toks tNumber =
           tokenizeFrom L rest (toks @ [Token tOp [opSymbol b]]) tOp"
  using assms by (cases b) (simp_all add: char_defs Let_def)

lemma tokenizeFrom_prefix_sign:
  assumes "p = tOp \<or> p = tLParen \<or> toks = []"
  shows "tokenizeFrom L (signSymbol s # rest) toks p =
           tokenizeFrom L rest (toks @ [Token tOp (signName s)]) tOp"
  using assms by (cases s) (auto simp: char_defs Let_def)

lemma exprTokens_nonempty: "exprTokens e \<noteq> []"
  by (cases e) auto

lemma tokenizeFrom_render:
  assumes "literalsOk e" and "blanksOk e" and "stopsNumber rest"
    and "p = tOp \<or> p = tLParen \<or> toks = []"
  shows "tokenizeFrom L (render e @ rest) toks p = tokenizeFrom L rest (toks @ exprTokens e) tNumber"
  using assms
proof (induction e arbitrary: rest toks p)
  case (Lit w n)
  then have "tokenizeFrom L (render (Lit w n) @ rest) toks p = tokenizeFrom L (n @ rest) toks p"
    by (simp add: tokenizeFrom_blanks)
  also have "\<dots> = tokenizeFrom L rest (toks @ [Token tNumber n]) tNumber"
    using Lit.prems by (simp add: tokenizeFrom_literal)
  finally show ?case by simp
next
  case (Signed s w e)
  from Signed.prems have l: "literalsOk e" and b: "blanksOk e" and w: "list_all isSpace w"
    by simp_all
  have "tokenizeFrom L (render (Signed s w e) @ rest) toks p
          = tokenizeFrom L (signSymbol s # render e @ rest) toks p"
    using w tokenizeFrom_blanks[OF w, of L "signSymbol s # render e @ rest" toks p] by simp
  also have "\<dots> = tokenizeFrom L (render e @ rest) (toks @ [Token tOp (signName s)]) tOp"
    by (rule tokenizeFrom_prefix_sign[OF Signed.prems(4)])
  also have "\<dots> = tokenizeFrom L rest ((toks @ [Token tOp (signName s)]) @ exprTokens e) tNumber"
    by (rule Signed.IH[OF l b Signed.prems(3)]) simp
  finally show ?case by simp
next
  case (Bin b w l r)
  from Bin.prems have ll: "literalsOk l" and lr: "literalsOk r" and bl: "blanksOk l"
    and br: "blanksOk r" and w: "list_all isSpace w"
    by simp_all
  have "stopsNumber (opSymbol b # render r @ rest)"
    by (simp add: stopsNumber_def opSymbol_facts)
  with w have st: "stopsNumber (w @ opSymbol b # render r @ rest)"
    by (rule stopsNumber_blanks)
  have ne: "toks @ exprTokens l \<noteq> []" using exprTokens_nonempty by simp
  have "tokenizeFrom L (render (Bin b w l r) @ rest) toks p
          = tokenizeFrom L (render l @ (w @ opSymbol b # render r @ rest)) toks p"
    by simp
  also have "\<dots> = tokenizeFrom L (w @ opSymbol b # render r @ rest) (toks @ exprTokens l) tNumber"
    by (rule Bin.IH(1)[OF ll bl st Bin.prems(4)])
  also have "\<dots> = tokenizeFrom L (opSymbol b # render r @ rest) (toks @ exprTokens l) tNumber"
    by (rule tokenizeFrom_blanks[OF w])
  also have "\<dots> = tokenizeFrom L (render r @ rest)
                      ((toks @ exprTokens l) @ [Token tOp [opSymbol b]]) tOp"
    by (rule tokenizeFrom_binop[OF ne])
  also have "\<dots> = tokenizeFrom L rest
                      (((toks @ exprTokens l) @ [Token tOp [opSymbol b]]) @ exprTokens r) tNumber"
    by (rule Bin.IH(2)[OF lr br Bin.prems(3)]) simp
  finally show ?case by simp
qed

subsection \<open>\<open>strings.TrimSpace\<close> on the text of a reading\<close>

lemma trimLeft_plain: "plainText s \<Longrightarrow> trimLeft s = dropWhile asciiSpace s"
proof (induction s rule: trimLeft.induct)
  case (1 a b c s)
  from 1(4) have a: "\<not> space2 a b" "\<not> space3 a b c" and t: "plainText (b # c # s)"
    by (auto simp: plainText_def space2_def space3_def)
  show ?case using 1(1) a t by simp
next
  case (2 a b)
  from 2(2) have a: "\<not> space2 a b" and t: "plainText [b]"
    by (auto simp: plainText_def space2_def)
  show ?case using 2(1) a t by simp
qed simp_all

lemma trimRightRev_plain: "plainText s \<Longrightarrow> trimRightRev s = dropWhile asciiSpace s"
proof (induction s rule: trimRightRev.induct)
  case (1 c b a s)
  from 1(4) have a: "\<not> space2 b c" "\<not> space3 a b c" and t: "plainText (b # a # s)"
    by (auto simp: plainText_def space2_def space3_def)
  show ?case using 1(1) a t by simp
next
  case (2 c b)
  from 2(2) have a: "\<not> space2 b c" and t: "plainText [b]"
    by (auto simp: plainText_def space2_def)
  show ?case using 2(1) a t by simp
qed simp_all

lemma asciiSpace_isSpace: "asciiSpace c \<Longrightarrow> isSpace c"
  by (auto simp: asciiSpace_def isSpace_def)

lemma tokenizeFrom_dropWhile:
  "tokenizeFrom L (dropWhile asciiSpace s) toks p = tokenizeFrom L s toks p"
  by (induction s) (simp_all add: asciiSpace_isSpace)

lemma dropWhile_append_stop:
  "ys \<noteq> [] \<Longrightarrow> \<not> P (hd ys) \<Longrightarrow> dropWhile P (xs @ ys) = dropWhile P xs @ ys"
  by (induction xs) (cases ys; simp)+

lemma plain_blank: "isSpace c \<Longrightarrow> code c \<noteq> 194 \<and> code c \<noteq> 225 \<and> code c \<noteq> 226 \<and> code c \<noteq> 227"
  by (auto simp: isSpace_def)

lemma plain_digit: "isDigit c \<Longrightarrow> code c \<noteq> 194 \<and> code c \<noteq> 225 \<and> code c \<noteq> 226 \<and> code c \<noteq> 227"
  by (auto simp: isDigit_def)

lemma plainText_append: "plainText (xs @ ys) \<longleftrightarrow> plainText xs \<and> plainText ys"
  by (auto simp: plainText_def)

lemma plainText_blanks: "list_all isSpace w \<Longrightarrow> plainText w"
  using plain_blank by (auto simp: plainText_def list_all_iff)

lemma plainText_digits: "list_all isDigit w \<Longrightarrow> plainText w"
  using plain_digit by (auto simp: plainText_def list_all_iff)

lemma plainText_literal:
  assumes "isFloatLiteral n"
  shows "plainText n"
proof -
  from literal_decomp[OF assms] obtain ip dot fp ex where
    n: "n = ip @ dot @ fp @ ex" and ip: "list_all isDigit ip" and fp: "list_all isDigit fp"
    and dot: "dot = [] \<or> dot = ''.''" and ex: "ex = [] \<or> isExponent ex"
    by blast
  have "plainText dot" using dot by (auto simp: plainText_def code_def)
  moreover have "plainText ex"
  proof (cases "ex = []")
    case True
    then show ?thesis by (simp add: plainText_def)
  next
    case False
    with ex obtain m sg ds where "ex = m # sg @ ds" "m = CHR ''e'' \<or> m = CHR ''E''"
      "sg = [] \<or> sg = ''+'' \<or> sg = ''-''" "list_all isDigit ds"
      by (auto simp: isExponent_def)
    then show ?thesis
      using plainText_digits[of ds]
      by (auto simp: plainText_def code_def)
  qed
  ultimately show ?thesis
    using n ip fp by (simp add: plainText_append plainText_digits)
qed

lemma plainText_symbols: "plainText [opSymbol b]" "plainText [signSymbol s]"
  by (cases b; simp add: plainText_def code_def) (cases s; simp add: plainText_def code_def)

lemma plainText_Cons: "plainText (c # s) \<longleftrightarrow> plainText [c] \<and> plainText s"
  by (auto simp: plainText_def)

lemma plainText_render: "literalsOk e \<Longrightarrow> blanksOk e \<Longrightarrow> plainText (render e)"
proof (induction e)
  case (Lit w n)
  then show ?case by (simp add: plainText_append plainText_blanks plainText_literal)
next
  case (Signed s w e)
  then show ?case
    using plainText_Cons[of "signSymbol s" "render e"]
    by (simp add: plainText_append plainText_blanks plainText_symbols)
next
  case (Bin b w l r)
  then show ?case
    using plainText_Cons[of "opSymbol b" "render r"]
    by (simp add: plainText_append plainText_blanks plainText_symbols)
qed

lemma render_last: "literalsOk e \<Longrightarrow> render e \<noteq> [] \<and> isMantissaChar (last (render e))"
proof (induction e)
  case (Lit w n)
  then show ?case using literal_ends[of n] by simp
qed simp_all

lemma mantissa_not_space: "isMantissaChar c \<Longrightarrow> \<not> asciiSpace c"
  by (auto simp: isMantissaChar_def isDigit_def asciiSpace_def code_def)

lemma trimSpace_render:
  assumes "literalsOk e" and "blanksOk e" and "list_all isSpace trail"
  shows "\<exists>trail'. list_all isSpace trail' \<and>
           trimSpace (render e @ trail) = dropWhile asciiSpace (render e @ trail')"
proof -
  let ?x = "render e"
  let ?d = "dropWhile asciiSpace ?x"
  let ?t = "rev (dropWhile asciiSpace (rev trail))"
  from render_last[OF assms(1)] have ne: "?x \<noteq> []" and la: "\<not> asciiSpace (last ?x)"
    by (simp_all add: mantissa_not_space)
  have pl: "plainText (?x @ trail)"
    using assms by (simp add: plainText_append plainText_render plainText_blanks)
  have stop: "last ?x \<in> set ?x" using ne by simp
  have left: "trimLeft (?x @ trail) = ?d @ trail"
    using pl stop la by (simp add: trimLeft_plain dropWhile_append1)
  have dne: "?d \<noteq> []"
    using stop la by (metis dropWhile_eq_Nil_conv)
  have "?x = takeWhile asciiSpace ?x @ ?d" by simp
  with dne have ld: "last ?d = last ?x" by (metis last_appendR)
  have pr: "plainText (rev (?d @ trail))"
    using pl by (auto simp: plainText_def dest: set_dropWhileD)
  have "trimRightRev (rev (?d @ trail)) = dropWhile asciiSpace (rev trail @ rev ?d)"
    using pr by (simp add: trimRightRev_plain)
  also have "\<dots> = dropWhile asciiSpace (rev trail) @ rev ?d"
    using dne ld la by (intro dropWhile_append_stop) (simp_all add: hd_rev)
  finally have "trimSpace (?x @ trail) = ?d @ ?t"
    by (simp add: trimSpace_def left)
  also have "\<dots> = dropWhile asciiSpace (?x @ ?t)"
    using stop la by (simp add: dropWhile_append1)
  finally have "trimSpace (?x @ trail) = dropWhile asciiSpace (?x @ ?t)" .
  moreover have "list_all isSpace ?t"
    using assms(3) by (auto simp: list_all_iff dest: set_dropWhileD)
  ultimately show ?thesis by blast
qed

lemma tokenize_render:
  assumes "literalsOk e" and "blanksOk e" and "list_all isSpace trail"
  shows "tokenize L (render e @ trail) = Inr (exprTokens e)"
proof -
  from trimSpace_render[OF assms] obtain trail' where
    t: "list_all isSpace trail'"
    and tr: "trimSpace (render e @ trail) = dropWhile asciiSpace (render e @ trail')"
    by blast
  have st: "stopsNumber trail'"
    using stopsNumber_blanks[OF t, of "[]"] by (simp add: stopsNumber_def)
  have "tokenize L (render e @ trail) = tokenizeFrom L (render e @ trail') [] tOp"
    by (simp add: tokenize_def tr tokenizeFrom_dropWhile)
  also have "\<dots> = tokenizeFrom L trail' ([] @ exprTokens e) tNumber"
    by (rule tokenizeFrom_render[OF assms(1,2) st]) simp
  also have "\<dots> = Inr (exprTokens e)"
    using tokenizeFrom_blanks[OF t, of L "[]" "exprTokens e" tNumber] by simp
  finally show ?thesis .
qed

subsection \<open>Every text has a reading\<close>

lemma operand_reading: "isOperand x \<Longrightarrow> tableReading x \<and> 4 \<le> rootLevel x"
  by (induction x) auto

lemma render_attach: "render (attach e c wc x) = render e @ wc @ opSymbol c # render x"
  by (induction e) auto

lemma rootLevel_attach: "rootLevel (attach e c wc x) = min (rootLevel e) (level c)"
  using level_bounds(2)[of c] by (induction e) auto

lemma tableReading_attach:
  assumes "isOperand x"
  shows "tableReading e \<Longrightarrow> tableReading (attach e c wc x)"
proof (induction e)
  case (Lit w n)
  show ?case using level_bounds(2)[of c] operand_reading[OF assms] by simp
next
  case (Signed s w e)
  then show ?case using level_bounds(2)[of c] operand_reading[OF assms] by simp
next
  case (Bin b w l r)
  show ?case
  proof (cases "level c < level b \<or> (level c = level b \<and> \<not> groupsRight c)")
    case True
    with Bin.prems level_bounds[of c] level_bounds[of b] operand_reading[OF assms]
    show ?thesis by auto
  next
    case False
    with Bin level_bounds[of c] level_bounds[of b] show ?thesis
      by (auto simp: rootLevel_attach)
  qed
qed

lemma literalsOk_attach: "literalsOk (attach e c wc x) \<longleftrightarrow> literalsOk e \<and> literalsOk x"
  by (induction e) auto

lemma blanksOk_attach:
  "blanksOk (attach e c wc x) \<longleftrightarrow> blanksOk e \<and> list_all isSpace wc \<and> blanksOk x"
  by (induction e) auto

lemma readTable_props:
  assumes "\<forall>y\<in>set rest. isOperand (snd (snd y))"
  shows "render (readTable e rest) = render e @ renderTail rest \<and>
   (tableReading e \<longrightarrow> tableReading (readTable e rest)) \<and>
   (literalsOk (readTable e rest) \<longleftrightarrow> literalsOk e \<and> (\<forall>y\<in>set rest. literalsOk (snd (snd y)))) \<and>
   (blanksOk (readTable e rest) \<longleftrightarrow>
      blanksOk e \<and> (\<forall>y\<in>set rest. list_all isSpace (fst (snd y)) \<and> blanksOk (snd (snd y))))"
  using assms
proof (induction rest arbitrary: e)
  case Nil
  show ?case by simp
next
  case (Cons y rest)
  obtain c wc x where y: "y = (c, wc, x)" by (cases y)
  from Cons.prems y have x: "isOperand x" and r: "\<forall>y\<in>set rest. isOperand (snd (snd y))"
    by simp_all
  show ?case
    using Cons.IH[OF r, of "attach e c wc x"] tableReading_attach[OF x, of e c wc]
    by (auto simp: y render_attach literalsOk_attach blanksOk_attach)
qed

lemma every_text_has_a_reading:
  assumes "isOperand x" and "\<forall>y\<in>set rest. isOperand (snd (snd y))"
  shows "\<exists>e. tableReading e \<and> render e = render x @ renderTail rest \<and>
       (literalsOk e \<longleftrightarrow> literalsOk x \<and> (\<forall>y\<in>set rest. literalsOk (snd (snd y)))) \<and>
       (blanksOk e \<longleftrightarrow>
          blanksOk x \<and> (\<forall>y\<in>set rest. list_all isSpace (fst (snd y)) \<and> blanksOk (snd (snd y))))"
  using readTable_props[OF assms(2), of x] operand_reading[OF assms(1)]
  by (intro exI[of _ "readTable x rest"]) simp

lemma evalExpr_text:
  assumes "isOperand x" and "\<forall>y\<in>set rest. isOperand (snd (snd y))"
    and "literalsOk x" and "\<forall>y\<in>set rest. literalsOk (snd (snd y))"
    and "blanksOk x" and "\<forall>y\<in>set rest. list_all isSpace (fst (snd y)) \<and> blanksOk (snd (snd y))"
    and "list_all isSpace trail"
  shows "evalExpr L (render x @ renderTail rest @ trail) a = evalTree L (readTable x rest)"
proof -
  let ?e = "readTable x rest"
  from readTable_props[OF assms(2), of x] operand_reading[OF assms(1)] assms
  have r: "render ?e = render x @ renderTail rest" and s: "tableReading ?e"
    and l: "literalsOk ?e" and b: "blanksOk ?e"
    by simp_all
  have "tokenize L (render ?e @ trail) = Inr (exprTokens ?e)"
    by (rule tokenize_render[OF l b assms(7)])
  then show ?thesis
    using shuntingYard_expr[OF s, of L]
    by (simp add: evalExpr_def r evalRPN_postfix)
qed

subsection \<open>The three examples, in every library\<close>

lemma example_2_plus_2_times_3:
  assumes "parseFloat L ''2'' = Some v2" and "parseFloat L ''3'' = Some v3"
  shows "evalExpr L ''2+2*3'' a = Inr (fadd L v2 (fmul L v2 v3))"
  using assms by (simp add: stage_defs char_defs table_defs)

lemma example_2_pow_3_pow_2:
  assumes "parseFloat L ''2'' = Some v2" and "parseFloat L ''3'' = Some v3"
  shows "evalExpr L ''2^3^2'' a = Inr (mathPow L v2 (mathPow L v3 v2))"
  using assms by (simp add: stage_defs char_defs table_defs)

lemma example_10_minus_3_minus_2:
  assumes "parseFloat L ''10'' = Some v10" and "parseFloat L ''3'' = Some v3"
    and "parseFloat L ''2'' = Some v2"
  shows "evalExpr L ''10-3-2'' a = Inr (fsub L (fsub L v10 v3) v2)"
  using assms by (simp add: stage_defs char_defs table_defs)

lemma example_blanks:
  assumes "parseFloat L ''10'' = Some v10" and "parseFloat L ''3'' = Some v3"
    and "parseFloat L ''2'' = Some v2"
  shows "evalExpr L '' 10 - 3 - 2 '' a = Inr (fsub L (fsub L v10 v3) v2)"
  using assms by (simp add: stage_defs char_defs table_defs)

subsection \<open>The pipeline computes the reading by the table\<close>

text \<open>
  Claim C1, as the code has it: for every expression of numeric literals, prefix signs
  and the binary operators \<open>+\<close>, \<open>-\<close>, \<open>*\<close>, \<open>/\<close>, \<open>^\<close>, written as text with any blanks
  before its tokens and after the last one, the pipeline \<open>tokenize\<close>, \<open>shuntingYard\<close>,
  \<open>evalRPN\<close> returns the value of the reading of the text by the table \<open>ops\<close>, whatever
  the previous answer: the binary operators by their usual precedence and
  associativity, and a prefix sign tighter than every binary operator, \<open>^\<close> included. It
  returns the division-by-zero error where that reading divides by zero, and the error
  of \<open>strconv.ParseFloat\<close> where the library rejects a literal. By
  \<open>every_text_has_a_reading\<close> each text of signed literals separated by operators is
  covered. At the three examples the results are \<open>2+(2*3)\<close>, \<open>2^(3^2)\<close> and \<open>(10-3)-2\<close>:
  8, 512 and 5 in exact arithmetic.
\<close>

theorem evalExpr_table_reading:
  assumes "tableReading e" and "literalsOk e" and "blanksOk e" and "list_all isSpace trail"
  shows "evalExpr L (render e @ trail) a = evalTree L e"
  by (simp add: evalExpr_def tokenize_render[OF assms(2,3,4)] shuntingYard_expr[OF assms(1)]
      evalRPN_postfix)

theorem evalExpr_table_reading_witness:
  "tableReading (Bin Add [] (Lit [] ''2'') (Bin Mul [] (Lit [] ''2'') (Lit [] ''3''))) \<and>
   render (Bin Add [] (Lit [] ''2'') (Bin Mul [] (Lit [] ''2'') (Lit [] ''3''))) = ''2+2*3'' \<and>
   evalExpr exactLib ''2+2*3'' (Fin 7) = Inr (Fin 8) \<and>
   tableReading (Bin Pow [] (Lit [] ''2'') (Bin Pow [] (Lit [] ''3'') (Lit [] ''2''))) \<and>
   render (Bin Pow [] (Lit [] ''2'') (Bin Pow [] (Lit [] ''3'') (Lit [] ''2''))) = ''2^3^2'' \<and>
   evalExpr exactLib ''2^3^2'' (Fin 7) = Inr (Fin 512) \<and>
   tableReading (Bin Sub [] (Bin Sub [] (Lit [] ''10'') (Lit [] ''3'')) (Lit [] ''2'')) \<and>
   render (Bin Sub [] (Bin Sub [] (Lit [] ''10'') (Lit [] ''3'')) (Lit [] ''2'')) = ''10-3-2'' \<and>
   evalExpr exactLib ''10-3-2'' (Fin 7) = Inr (Fin 5) \<and>
   tableReading (Bin Sub '' '' (Bin Sub '' '' (Lit '' '' ''10'') (Lit '' '' ''3'')) (Lit '' '' ''2'')) \<and>
   blanksOk (Bin Sub '' '' (Bin Sub '' '' (Lit '' '' ''10'') (Lit '' '' ''3'')) (Lit '' '' ''2'')) \<and>
   render (Bin Sub '' '' (Bin Sub '' '' (Lit '' '' ''10'') (Lit '' '' ''3'')) (Lit '' '' ''2'')) @ '' ''
     = '' 10 - 3 - 2 '' \<and>
   evalExpr exactLib '' 10 - 3 - 2 '' (Fin 7) = Inr (Fin 5) \<and>
   tableReading (Bin Pow [] (Signed Minus [] (Lit [] ''2'')) (Lit [] ''2'')) \<and>
   render (Bin Pow [] (Signed Minus [] (Lit [] ''2'')) (Lit [] ''2'')) = ''-2^2'' \<and>
   evalExpr exactLib ''-2^2'' (Fin 7) = Inr (Fin 4)"
  using evalExpr_table_reading [where e = "Bin Add [] (Lit [] ''2'') (Bin Mul [] (Lit [] ''2'') (Lit [] ''3''))"
      and trail = "[]" and L = exactLib and a = "Fin 7"]
    evalExpr_table_reading [where e = "Bin Pow [] (Lit [] ''2'') (Bin Pow [] (Lit [] ''3'') (Lit [] ''2''))"
      and trail = "[]" and L = exactLib and a = "Fin 7"]
    evalExpr_table_reading [where e = "Bin Sub [] (Bin Sub [] (Lit [] ''10'') (Lit [] ''3'')) (Lit [] ''2'')"
      and trail = "[]" and L = exactLib and a = "Fin 7"]
    evalExpr_table_reading [where e = "Bin Sub '' '' (Bin Sub '' '' (Lit '' '' ''10'') (Lit '' '' ''3'')) (Lit '' '' ''2'')"
      and trail = "'' ''" and L = exactLib and a = "Fin 7"]
    evalExpr_table_reading [where e = "Bin Pow [] (Signed Minus [] (Lit [] ''2'')) (Lit [] ''2'')"
      and trail = "[]" and L = exactLib and a = "Fin 7"]
  by (simp add: char_defs literal_defs exact_defs)

text \<open>
  The claim as stated fails at \<open>-2^2\<close>: the usual reading is \<open>-(2^2)\<close>, which is \<open>-4\<close>,
  and the code, where the prefix minus has precedence 4 and \<open>^\<close> has 3, computes
  \<open>(-2)^2\<close>, which is 4.
\<close>

theorem prefix_minus_before_power:
  "evalExpr exactLib ''-2^2'' (Fin 0) = Inr (Fin 4) \<and>
   evalExpr exactLib ''-(2^2)'' (Fin 0) = Inr (Fin (- 4)) \<and>
   evalExpr exactLib ''(-2)^2'' (Fin 0) = Inr (Fin 4)"
  by (simp add: stage_defs char_defs table_defs literal_defs exact_defs)

end
